theory Spec2Isabelle
  imports Complex_Main "HOL-Library.Multiset" "HOL-Library.Product_Lexorder"
begin

section \<open>Python values\<close>

text \<open>
  The exceptions the modelled functions of \<^verbatim>\<open>question_answering.py\<close> can raise.
  A function that can raise returns \<open>py_error + 'a\<close>, with \<open>Inl\<close> the exception.
  \<open>Unmodelled\<close> is not an exception: it is the result of a run that sorts by keys
  among which there is a NaN, where the order \<^verbatim>\<open>sorted\<close> returns depends on the steps of
  its algorithm. Strings are ASCII text.
\<close>

datatype py_error =
  KeyError | IndexError | AssertionError | ZeroDivisionError | AttributeError | OverflowError |
  Unmodelled

text \<open>\<^verbatim>\<open>sep.join(xs)\<close>.\<close>

fun join :: "string \<Rightarrow> string list \<Rightarrow> string" where
  "join sep [] = []"
| "join sep [x] = x"
| "join sep (x # y # ys) = x @ sep @ join sep (y # ys)"

text \<open>
  \<^verbatim>\<open>str.split()\<close> without arguments: the maximal runs of non-whitespace characters.
  The ASCII characters Python counts as whitespace are 9 to 13, 28 to 31 and the space.
\<close>

definition is_space :: "char \<Rightarrow> bool" where
  "is_space c = ((of_char c :: nat) \<in> {9, 10, 11, 12, 13, 28, 29, 30, 31, 32})"

fun split_from :: "string \<Rightarrow> string \<Rightarrow> string list" where
  "split_from cur [] = (if cur = [] then [] else [rev cur])"
| "split_from cur (c # cs) =
     (if is_space c then (if cur = [] then split_from [] cs else rev cur # split_from [] cs)
      else split_from (c # cur) cs)"

definition split :: "string \<Rightarrow> string list" where
  "split text = split_from [] text"

section \<open>Python numbers\<close>

text \<open>
  A Python float is an IEEE 754 double: a finite value, an infinity or NaN. A finite double
  is a rational \<open>m * 2 ^ e\<close> with \<open>\<bar>m\<bar> < 2 ^ 53\<close> and \<open>- 1074 \<le> e \<le> 971\<close>; \<open>Fin q\<close> is the
  double of value \<open>q\<close>. The two zeros are one value here: they compare equal, and no
  operation below tells them apart.
\<close>

datatype py_float = Fin rat | PInf | NInf | NaN

definition pow2 :: "int \<Rightarrow> rat" where
  "pow2 e = (if 0 \<le> e then 2 ^ nat e else 1 / 2 ^ nat (- e))"

text \<open>\<^verbatim>\<open>n.bit_length()\<close> for an integer that is not negative.\<close>

function bit_length :: "int \<Rightarrow> int" where
  "bit_length n = (if n \<le> 0 then 0 else 1 + bit_length (n div 2))"
  by pat_completeness auto
termination
  by (relation "measure nat") auto

declare bit_length.simps [simp del]

text \<open>The integer part of the binary logarithm of a positive rational.\<close>

definition ilog2 :: "rat \<Rightarrow> int" where
  "ilog2 q =
     (if 1 \<le> q then bit_length \<lfloor>q\<rfloor> - 1
      else - bit_length (\<lceil>1 / q\<rceil> - 1))"

text \<open>Rounding to the nearest integer, a tie to the even one.\<close>

definition round_half_even :: "rat \<Rightarrow> int" where
  "round_half_even x =
     (let f = \<lfloor>x\<rfloor>; r = x - of_int f
      in if r < 1 / 2 then f
         else if 1 / 2 < r then f + 1
         else if even f then f else f + 1)"

text \<open>
  The double nearest to a rational, a tie to the even significand: the result every
  arithmetic operation on doubles returns for its exact result. The significand \<open>m\<close> has
  53 bits, fewer below \<open>2 ^ (- 1022)\<close>, where the spacing stays \<open>2 ^ (- 1074)\<close>. A result
  that rounds to \<open>2 ^ 1024\<close> or more is an infinity: as \<open>2 ^ 52 \<le> m \<le> 2 ^ 53\<close> above
  the smallest exponent, that is \<open>971 < e\<close>, or \<open>e = 971\<close> with \<open>m = 2 ^ 53\<close>.
\<close>

definition round_to_double :: "rat \<Rightarrow> py_float" where
  "round_to_double q =
     (if q = 0 then Fin 0
      else
        (let a = \<bar>q\<bar>;
             e = max (ilog2 a - 52) (- 1074);
             m = round_half_even (a / pow2 e)
         in if 971 < e \<or> (e = 971 \<and> 2 ^ 53 \<le> m) then (if 0 < q then PInf else NInf)
            else Fin (if 0 < q then of_int m * pow2 e else - (of_int m * pow2 e))))"

text \<open>
  \<^verbatim>\<open>float(n)\<close> for a Python integer, also the conversion of an integer operand of an
  operation with a float: the nearest double, and \<^verbatim>\<open>OverflowError\<close> when there is none.
\<close>

definition float_of_int :: "int \<Rightarrow> py_error + py_float" where
  "float_of_int n =
     (case round_to_double (of_int n) of
        Fin v \<Rightarrow> Inr (Fin v)
      | _ \<Rightarrow> Inl OverflowError)"

fun float_neg :: "py_float \<Rightarrow> py_float" where
  "float_neg (Fin a) = Fin (- a)"
| "float_neg PInf = NInf"
| "float_neg NInf = PInf"
| "float_neg NaN = NaN"

text \<open>\<^verbatim>\<open>x + y\<close>, \<^verbatim>\<open>x - y\<close> and \<^verbatim>\<open>x * y\<close> on floats.\<close>

fun float_add :: "py_float \<Rightarrow> py_float \<Rightarrow> py_float" where
  "float_add (Fin a) (Fin b) = round_to_double (a + b)"
| "float_add NaN y = NaN"
| "float_add x NaN = NaN"
| "float_add PInf NInf = NaN"
| "float_add NInf PInf = NaN"
| "float_add PInf y = PInf"
| "float_add NInf y = NInf"
| "float_add (Fin a) y = y"

definition float_sub :: "py_float \<Rightarrow> py_float \<Rightarrow> py_float" where
  "float_sub x y = float_add x (float_neg y)"

fun float_mul :: "py_float \<Rightarrow> py_float \<Rightarrow> py_float" where
  "float_mul (Fin a) (Fin b) = round_to_double (a * b)"
| "float_mul NaN y = NaN"
| "float_mul x NaN = NaN"
| "float_mul (Fin a) y = (if a = 0 then NaN else if 0 < a then y else float_neg y)"
| "float_mul x (Fin b) = (if b = 0 then NaN else if 0 < b then x else float_neg x)"
| "float_mul x y = (if x = y then PInf else NInf)"

text \<open>\<^verbatim>\<open>x / y\<close> on floats: a zero divisor raises \<^verbatim>\<open>ZeroDivisionError\<close>.\<close>

fun float_div :: "py_float \<Rightarrow> py_float \<Rightarrow> py_error + py_float" where
  "float_div x (Fin b) =
     (if b = 0 then Inl ZeroDivisionError
      else case x of
             Fin a \<Rightarrow> Inr (round_to_double (a / b))
           | NaN \<Rightarrow> Inr NaN
           | _ \<Rightarrow> Inr (if 0 < b then x else float_neg x))"
| "float_div x NaN = Inr NaN"
| "float_div (Fin a) y = Inr (Fin 0)"
| "float_div x y = Inr NaN"

text \<open>
  The order of the floats: every comparison with NaN is false. \<open>float_rank\<close> places the
  other floats in a linear order, the pairs being compared first component first.
\<close>

fun float_rank :: "py_float \<Rightarrow> int \<times> rat" where
  "float_rank (Fin a) = (0, a)"
| "float_rank PInf = (1, 0)"
| "float_rank NInf = (- 1, 0)"
| "float_rank NaN = (2, 0)"

definition float_lt :: "py_float \<Rightarrow> py_float \<Rightarrow> bool" where
  "float_lt x y = (x \<noteq> NaN \<and> y \<noteq> NaN \<and> float_rank x < float_rank y)"

definition float_gt :: "py_float \<Rightarrow> py_float \<Rightarrow> bool" where
  "float_gt x y = float_lt y x"

text \<open>
  A Python number is an integer or a float. An operation on two integers is exact; with a
  float operand the integer operand is converted first. A comparison of an integer with a
  float compares the two values exactly.
\<close>

datatype py_num = PyInt int | PyFloat py_float

fun as_float :: "py_num \<Rightarrow> py_error + py_float" where
  "as_float (PyInt n) = float_of_int n"
| "as_float (PyFloat x) = Inr x"

fun py_add :: "py_num \<Rightarrow> py_num \<Rightarrow> py_error + py_num" where
  "py_add (PyInt a) (PyInt b) = Inr (PyInt (a + b))"
| "py_add x y =
     (case as_float x of
        Inl e \<Rightarrow> Inl e
      | Inr fx \<Rightarrow>
          (case as_float y of
             Inl e \<Rightarrow> Inl e
           | Inr fy \<Rightarrow> Inr (PyFloat (float_add fx fy))))"

text \<open>
  \<^verbatim>\<open>x * y\<close> and \<^verbatim>\<open>x / y\<close> where \<open>x\<close> is a float: an integer \<open>y\<close> is converted first.
\<close>

definition py_mul_float :: "py_float \<Rightarrow> py_num \<Rightarrow> py_error + py_float" where
  "py_mul_float x y =
     (case as_float y of
        Inl e \<Rightarrow> Inl e
      | Inr fy \<Rightarrow> Inr (float_mul x fy))"

definition py_div_float :: "py_float \<Rightarrow> py_num \<Rightarrow> py_error + py_float" where
  "py_div_float x y =
     (case as_float y of
        Inl e \<Rightarrow> Inl e
      | Inr fy \<Rightarrow> float_div x fy)"

fun py_rank :: "py_num \<Rightarrow> int \<times> rat" where
  "py_rank (PyInt n) = (0, of_int n)"
| "py_rank (PyFloat x) = float_rank x"

definition py_is_nan :: "py_num \<Rightarrow> bool" where
  "py_is_nan x = (x = PyFloat NaN)"

definition py_lt :: "py_num \<Rightarrow> py_num \<Rightarrow> bool" where
  "py_lt x y = (\<not> py_is_nan x \<and> \<not> py_is_nan y \<and> py_rank x < py_rank y)"

definition py_gt :: "py_num \<Rightarrow> py_num \<Rightarrow> bool" where
  "py_gt x y = py_lt y x"

text \<open>
  \<^verbatim>\<open>sorted(xs, key=key, reverse=reverse)\<close> for keys that are numbers. The sort is stable:
  elements whose keys are equal keep their order, also when \<open>reverse\<close> is set. It
  compares the keys with \<^verbatim>\<open><\<close>; with a NaN among them the result is \<open>Unmodelled\<close>.
\<close>

definition rank_reverse :: "int \<times> rat \<Rightarrow> int \<times> rat" where
  "rank_reverse r = (- fst r, - snd r)"

definition py_sorted :: "('a \<Rightarrow> py_num) \<Rightarrow> bool \<Rightarrow> 'a list \<Rightarrow> py_error + 'a list" where
  "py_sorted key reverse xs =
     (if PyFloat NaN \<in> set (map key xs) then Inl Unmodelled
      else Inr (sort_key (\<lambda>x. if reverse then rank_reverse (py_rank (key x)) else py_rank (key x)) xs))"

section \<open>Feature builder\<close>

text \<open>
  \<^verbatim>\<open>xs[i]\<close> for a Python integer \<open>i\<close>: a negative index counts from the end, an index
  out of range raises \<^verbatim>\<open>IndexError\<close>.
\<close>

definition py_get :: "'a list \<Rightarrow> int \<Rightarrow> py_error + 'a" where
  "py_get xs i =
     (if 0 \<le> i \<and> i < int (length xs) then Inr (xs ! nat i)
      else if i < 0 \<and> - int (length xs) \<le> i then Inr (xs ! nat (int (length xs) + i))
      else Inl IndexError)"

text \<open>\<^verbatim>\<open>xs[i:j]\<close> for Python integers: negative bounds count from the end, then both are clipped.\<close>

definition py_slice :: "'a list \<Rightarrow> int \<Rightarrow> int \<Rightarrow> 'a list" where
  "py_slice xs i j =
     (let n = int (length xs);
          i' = (if i < 0 then max 0 (n + i) else min n i);
          j' = (if j < 0 then max 0 (n + j) else min n j)
      in take (nat j' - nat i') (drop (nat i') xs))"

subsection \<open>Sliding-window chunking\<close>

record DocSpan =
  start :: int
  span_length :: int

text \<open>
  The \<^verbatim>\<open>while start_offset < len(all_doc_tokens)\<close> loop of
  \<^verbatim>\<open>_convert_examples_to_features\<close>. The loop need not terminate, so its result is an
  option: \<open>None\<close> is a run that never returns.
\<close>

partial_function (option) doc_spans_loop ::
  "int \<Rightarrow> int \<Rightarrow> int \<Rightarrow> int \<Rightarrow> DocSpan list \<Rightarrow> DocSpan list option" where
  "doc_spans_loop doc_len max_tokens_for_doc doc_stride start_offset doc_spans =
     (if start_offset < doc_len then
        (let length0 = doc_len - start_offset;
             length1 = (if length0 > max_tokens_for_doc then max_tokens_for_doc else length0);
             doc_spans' = doc_spans @ [\<lparr>start = start_offset, span_length = length1\<rparr>]
         in if start_offset + length1 = doc_len then Some doc_spans'
            else doc_spans_loop doc_len max_tokens_for_doc doc_stride
                   (start_offset + min length1 doc_stride) doc_spans')
      else Some doc_spans)"

declare doc_spans_loop.simps [code]

definition make_doc_spans :: "string list \<Rightarrow> string list \<Rightarrow> int \<Rightarrow> int \<Rightarrow> DocSpan list option" where
  "make_doc_spans all_doc_tokens query_tokens max_seq_length doc_stride =
     (let max_tokens_for_doc = max_seq_length - int (length query_tokens) - 3
      in doc_spans_loop (int (length all_doc_tokens)) max_tokens_for_doc doc_stride 0 [])"

text \<open>A span contains the positions from its start to its start plus its length, exclusive.\<close>

definition span_contains :: "DocSpan \<Rightarrow> int \<Rightarrow> bool" where
  "span_contains d p = (start d \<le> p \<and> p < start d + span_length d)"

subsection \<open>\<^verbatim>\<open>_check_is_max_context\<close>\<close>

text \<open>
  The score of a position in a span:
  \<^verbatim>\<open>min(num_left_context, num_right_context) + 0.01 * doc_span.length\<close>, a float. The
  literal \<^verbatim>\<open>0.01\<close> is the double nearest to 1/100; the two integers are converted to
  floats, the length for the product and the smaller context for the sum, and each
  conversion raises \<^verbatim>\<open>OverflowError\<close> for an integer beyond the doubles.
\<close>

definition context_score :: "DocSpan \<Rightarrow> int \<Rightarrow> py_error + py_float" where
  "context_score doc_span position =
     (let end = start doc_span + span_length doc_span - 1;
          num_left_context = position - start doc_span;
          num_right_context = end - position
      in case float_of_int (span_length doc_span) of
           Inl e \<Rightarrow> Inl e
         | Inr len \<Rightarrow>
             (case float_of_int (min num_left_context num_right_context) of
                Inl e \<Rightarrow> Inl e
              | Inr ctx \<Rightarrow> Inr (float_add ctx (float_mul (round_to_double (1 / 100)) len))))"

text \<open>
  The loop over \<^verbatim>\<open>enumerate(doc_spans)\<close>; \<open>best\<close> holds \<^verbatim>\<open>best_score\<close> and
  \<^verbatim>\<open>best_span_index\<close>, which are \<^verbatim>\<open>None\<close> together.
\<close>

fun max_context_scan ::
  "DocSpan list \<Rightarrow> nat \<Rightarrow> int \<Rightarrow> (py_float \<times> nat) option \<Rightarrow>
   py_error + (py_float \<times> nat) option" where
  "max_context_scan [] span_index position best = Inr best"
| "max_context_scan (doc_span # rest) span_index position best =
     (let end = start doc_span + span_length doc_span - 1
      in if position < start doc_span then max_context_scan rest (Suc span_index) position best
         else if position > end then max_context_scan rest (Suc span_index) position best
         else
           (case context_score doc_span position of
              Inl e \<Rightarrow> Inl e
            | Inr score \<Rightarrow>
                if (case best of
                      None \<Rightarrow> True
                    | Some (best_score, best_span_index) \<Rightarrow> float_gt score best_score)
                then max_context_scan rest (Suc span_index) position (Some (score, span_index))
                else max_context_scan rest (Suc span_index) position best))"

definition check_is_max_context :: "DocSpan list \<Rightarrow> nat \<Rightarrow> int \<Rightarrow> py_error + bool" where
  "check_is_max_context doc_spans cur_span_index position =
     (case max_context_scan doc_spans 0 position None of
        Inl e \<Rightarrow> Inl e
      | Inr best \<Rightarrow> Inr (Some cur_span_index = map_option snd best))"

text \<open>
  \<open>first_best ds p b\<close>: span \<open>b\<close> contains \<open>p\<close>, no span containing \<open>p\<close> has a higher
  score, and every earlier span containing \<open>p\<close> has a lower score.
\<close>

definition first_best :: "DocSpan list \<Rightarrow> int \<Rightarrow> nat \<Rightarrow> bool" where
  "first_best ds p b =
     (b < length ds \<and> span_contains (ds ! b) p \<and>
      (\<exists>sb. context_score (ds ! b) p = Inr sb \<and>
         (\<forall>j<length ds. span_contains (ds ! j) p \<longrightarrow>
            (\<exists>sj. context_score (ds ! j) p = Inr sj \<and> \<not> float_gt sj sb)) \<and>
         (\<forall>j<b. span_contains (ds ! j) p \<longrightarrow>
            (\<exists>sj. context_score (ds ! j) p = Inr sj \<and> float_lt sj sb))))"

subsection \<open>Features\<close>

text \<open>
  The tokenizer is an external collaborator: its two methods are parameters.
\<close>

record tokenizer =
  tokenize :: "string \<Rightarrow> string list"
  convert_tokens_to_ids :: "string list \<Rightarrow> int list"

text \<open>The keyword arguments of \<^verbatim>\<open>_convert_examples_to_features\<close>.\<close>

record builder_args =
  max_seq_length :: int
  doc_stride :: int
  max_query_length :: int
  cls_token_at_end :: bool
  cls_token :: string
  sep_token :: string
  pad_token :: int
  sequence_a_segment_id :: int
  sequence_b_segment_id :: int
  cls_token_segment_id :: int
  pad_token_segment_id :: int
  mask_padding_with_zero :: bool
  sequence_a_is_doc :: bool

record Example =
  qas_id :: string
  question_text :: string
  doc_tokens :: "string list"

text \<open>
  \<^verbatim>\<open>QAInputFeatures\<close>, without the training labels (\<^verbatim>\<open>start_position\<close>,
  \<^verbatim>\<open>end_position\<close>, \<^verbatim>\<open>is_impossible\<close>), which no property below reads.
\<close>

record Feature =
  unique_id :: int
  example_index :: nat
  doc_span_index :: nat
  tokens :: "string list"
  token_to_orig_map :: "int \<rightharpoonup> nat"
  token_is_max_context :: "int \<rightharpoonup> bool"
  input_ids :: "int list"
  input_mask :: "int list"
  segment_ids :: "int list"
  cls_index :: int
  p_mask :: "int list"
  paragraph_len :: int

text \<open>The local variables a feature is assembled in, before the ids are computed.\<close>

record assembly =
  a_tokens :: "string list"
  a_token_to_orig_map :: "int \<rightharpoonup> nat"
  a_token_is_max_context :: "int \<rightharpoonup> bool"
  a_segment_ids :: "int list"
  a_p_mask :: "int list"

definition append_token :: "string \<Rightarrow> int \<Rightarrow> int \<Rightarrow> assembly \<Rightarrow> assembly" where
  "append_token t seg pm a =
     a\<lparr>a_tokens := a_tokens a @ [t], a_segment_ids := a_segment_ids a @ [seg],
       a_p_mask := a_p_mask a @ [pm]\<rparr>"

definition append_query :: "string list \<Rightarrow> int \<Rightarrow> assembly \<Rightarrow> assembly" where
  "append_query query_tokens seg a =
     a\<lparr>a_tokens := a_tokens a @ query_tokens,
       a_segment_ids := a_segment_ids a @ replicate (length query_tokens) seg,
       a_p_mask := a_p_mask a @ replicate (length query_tokens) 1\<rparr>"

text \<open>The loop \<^verbatim>\<open>for i in range(doc_span.length)\<close> over the positions of the chunk.\<close>

fun paragraph_loop ::
  "builder_args \<Rightarrow> DocSpan list \<Rightarrow> nat \<Rightarrow> DocSpan \<Rightarrow> nat list \<Rightarrow> string list \<Rightarrow>
   nat list \<Rightarrow> assembly \<Rightarrow> py_error + assembly" where
  "paragraph_loop args doc_spans span_index doc_span tok_to_orig_index all_doc_tokens [] a = Inr a"
| "paragraph_loop args doc_spans span_index doc_span tok_to_orig_index all_doc_tokens (i # is) a =
     (let split_token_index = start doc_span + int i
      in case py_get tok_to_orig_index split_token_index of
           Inl e \<Rightarrow> Inl e
         | Inr orig \<Rightarrow>
             (case check_is_max_context doc_spans span_index split_token_index of
                Inl e \<Rightarrow> Inl e
              | Inr is_max_context \<Rightarrow>
                  (case py_get all_doc_tokens split_token_index of
                     Inl e \<Rightarrow> Inl e
                   | Inr t \<Rightarrow>
                       paragraph_loop args doc_spans span_index doc_span tok_to_orig_index
                         all_doc_tokens is
                         (append_token t
                            (if \<not> sequence_a_is_doc args then sequence_b_segment_id args
                             else sequence_a_segment_id args) 0
                            (a\<lparr>a_token_to_orig_map :=
                                 (a_token_to_orig_map a)(int (length (a_tokens a)) \<mapsto> orig),
                               a_token_is_max_context :=
                                 (a_token_is_max_context a)(int (length (a_tokens a)) \<mapsto> is_max_context)\<rparr>)))))"

text \<open>
  The token sequence of one chunk, up to the last separator and the classification token:
  \<^verbatim>\<open>[CLS] query [SEP] chunk [SEP]\<close> by default, \<^verbatim>\<open>chunk [SEP] query [SEP] [CLS]\<close> for
  the pointer-head family.
\<close>

definition assemble ::
  "builder_args \<Rightarrow> string list \<Rightarrow> nat list \<Rightarrow> string list \<Rightarrow> DocSpan list \<Rightarrow> nat \<Rightarrow>
   DocSpan \<Rightarrow> py_error + assembly" where
  "assemble args query_tokens tok_to_orig_index all_doc_tokens doc_spans span_index doc_span =
     (let a0 = \<lparr>a_tokens = [], a_token_to_orig_map = Map.empty,
                a_token_is_max_context = Map.empty, a_segment_ids = [], a_p_mask = []\<rparr>;
          a1 = (if \<not> cls_token_at_end args
                then append_token (cls_token args) (cls_token_segment_id args) 0 a0 else a0);
          a2 = (if \<not> sequence_a_is_doc args
                then append_token (sep_token args) (sequence_a_segment_id args) 1
                       (append_query query_tokens (sequence_a_segment_id args) a1)
                else a1)
      in case paragraph_loop args doc_spans span_index doc_span tok_to_orig_index
                all_doc_tokens [0..<nat (span_length doc_span)] a2 of
           Inl e \<Rightarrow> Inl e
         | Inr a3 \<Rightarrow>
             (let a4 = (if sequence_a_is_doc args
                        then append_query query_tokens (sequence_b_segment_id args)
                               (append_token (sep_token args) (sequence_a_segment_id args) 1 a3)
                        else a3);
                  a5 = append_token (sep_token args) (sequence_b_segment_id args) 1 a4;
                  a6 = (if cls_token_at_end args
                        then append_token (cls_token args) (cls_token_segment_id args) 0 a5 else a5)
              in Inr a6))"

text \<open>The loop \<^verbatim>\<open>while len(input_ids) < max_seq_length\<close> that pads the four sequences.\<close>

function pad_loop ::
  "builder_args \<Rightarrow> int list \<times> int list \<times> int list \<times> int list \<Rightarrow>
   int list \<times> int list \<times> int list \<times> int list" where
  "pad_loop args (ids, in_mask, segs, pm) =
     (if int (length ids) < max_seq_length args
      then pad_loop args
             (ids @ [pad_token args], in_mask @ [if mask_padding_with_zero args then 0 else 1],
              segs @ [pad_token_segment_id args], pm @ [1])
      else (ids, in_mask, segs, pm))"
  by pat_completeness auto
termination
  by (relation "measure (\<lambda>(args, ids, in_mask, segs, pm). nat (max_seq_length args - int (length ids)))")
     auto

text \<open>
  From the assembled tokens to the feature: the ids, the mask, the padding and the three
  \<^verbatim>\<open>assert\<close> statements on the lengths.
\<close>

definition finish_feature ::
  "builder_args \<Rightarrow> tokenizer \<Rightarrow> int \<Rightarrow> nat \<Rightarrow> nat \<Rightarrow> DocSpan \<Rightarrow> assembly \<Rightarrow>
   py_error + Feature" where
  "finish_feature args tok uid ex_index span_index doc_span a =
     (let cls_ix = (if cls_token_at_end args then int (length (a_tokens a)) - 1 else 0);
          ids0 = convert_tokens_to_ids tok (a_tokens a);
          in_mask0 = replicate (length ids0) (if mask_padding_with_zero args then 1 else 0);
          (ids, in_mask, segs, pm) = pad_loop args (ids0, in_mask0, a_segment_ids a, a_p_mask a)
      in if int (length ids) \<noteq> max_seq_length args then Inl AssertionError
         else if int (length in_mask) \<noteq> max_seq_length args then Inl AssertionError
         else if int (length segs) \<noteq> max_seq_length args then Inl AssertionError
         else Inr \<lparr>unique_id = uid, example_index = ex_index, doc_span_index = span_index,
                   tokens = a_tokens a, token_to_orig_map = a_token_to_orig_map a,
                   token_is_max_context = a_token_is_max_context a,
                   input_ids = ids, input_mask = in_mask, segment_ids = segs,
                   cls_index = cls_ix, p_mask = pm,
                   paragraph_len = span_length doc_span\<rparr>)"

definition build_feature ::
  "builder_args \<Rightarrow> tokenizer \<Rightarrow> int \<Rightarrow> nat \<Rightarrow> string list \<Rightarrow> nat list \<Rightarrow> string list \<Rightarrow>
   DocSpan list \<Rightarrow> nat \<Rightarrow> DocSpan \<Rightarrow> py_error + Feature" where
  "build_feature args tok uid ex_index query_tokens tok_to_orig_index all_doc_tokens doc_spans
     span_index doc_span =
     (case assemble args query_tokens tok_to_orig_index all_doc_tokens doc_spans span_index
             doc_span of
        Inl e \<Rightarrow> Inl e
      | Inr a \<Rightarrow> finish_feature args tok uid ex_index span_index doc_span a)"

text \<open>The loop \<^verbatim>\<open>for (doc_span_index, doc_span) in enumerate(doc_spans)\<close>.\<close>

fun features_of_spans ::
  "builder_args \<Rightarrow> tokenizer \<Rightarrow> int \<Rightarrow> nat \<Rightarrow> string list \<Rightarrow> nat list \<Rightarrow> string list \<Rightarrow>
   DocSpan list \<Rightarrow> (nat \<times> DocSpan) list \<Rightarrow> py_error + Feature list" where
  "features_of_spans args tok uid ex_index query_tokens tok_to_orig_index all_doc_tokens doc_spans [] =
     Inr []"
| "features_of_spans args tok uid ex_index query_tokens tok_to_orig_index all_doc_tokens doc_spans
     ((span_index, doc_span) # rest) =
     (case build_feature args tok uid ex_index query_tokens tok_to_orig_index all_doc_tokens
             doc_spans span_index doc_span of
        Inl e \<Rightarrow> Inl e
      | Inr f \<Rightarrow>
          (case features_of_spans args tok (uid + 1) ex_index query_tokens tok_to_orig_index
                  all_doc_tokens doc_spans rest of
             Inl e \<Rightarrow> Inl e
           | Inr fs \<Rightarrow> Inr (f # fs)))"

text \<open>
  The body of the loop over the examples, at inference (\<^verbatim>\<open>is_training\<close> false): the
  features of one example, whose first feature gets the id \<open>uid\<close>. The result is
  \<open>None\<close> when the chunking loop never returns.
\<close>

definition convert_example ::
  "builder_args \<Rightarrow> tokenizer \<Rightarrow> int \<Rightarrow> nat \<Rightarrow> Example \<Rightarrow> (py_error + Feature list) option" where
  "convert_example args tok uid ex_index example =
     (let query_tokens0 = tokenize tok (question_text example);
          query_tokens = (if int (length query_tokens0) > max_query_length args
                          then py_slice query_tokens0 0 (max_query_length args) else query_tokens0);
          sub_tokens = map (tokenize tok) (doc_tokens example);
          tok_to_orig_index = concat (map (\<lambda>(i, sub). replicate (length sub) i) (enumerate 0 sub_tokens));
          all_doc_tokens = concat sub_tokens
      in case make_doc_spans all_doc_tokens query_tokens (max_seq_length args) (doc_stride args) of
           None \<Rightarrow> None
         | Some doc_spans \<Rightarrow>
             Some (features_of_spans args tok uid ex_index query_tokens tok_to_orig_index
                     all_doc_tokens doc_spans (enumerate 0 doc_spans)))"

section \<open>Text re-aligner\<close>

text \<open>
  \<^verbatim>\<open>text.find(sub)\<close>: the index of the first occurrence of \<open>sub\<close> in \<open>text\<close>, or \<open>-1\<close>.
\<close>

fun find_from :: "string \<Rightarrow> nat \<Rightarrow> string \<Rightarrow> int" where
  "find_from sub i [] = (if sub = [] then int i else - 1)"
| "find_from sub i (c # cs) =
     (if take (length sub) (c # cs) = sub then int i else find_from sub (Suc i) cs)"

definition str_find :: "string \<Rightarrow> string \<Rightarrow> int" where
  "str_find text sub = find_from sub 0 text"

text \<open>
  The inner function \<^verbatim>\<open>_strip_spaces\<close>: the text without its spaces, and the ordered
  dictionary from each position in the stripped text to the position in the text.
\<close>

fun strip_spaces_loop ::
  "(nat \<times> char) list \<Rightarrow> string \<Rightarrow> (int \<times> int) list \<Rightarrow> string \<times> (int \<times> int) list" where
  "strip_spaces_loop [] ns_chars ns_to_s_map = (ns_chars, ns_to_s_map)"
| "strip_spaces_loop ((i, c) # rest) ns_chars ns_to_s_map =
     (if c = CHR '' '' then strip_spaces_loop rest ns_chars ns_to_s_map
      else strip_spaces_loop rest (ns_chars @ [c])
             (ns_to_s_map @ [(int (length ns_chars), int i)]))"

definition strip_spaces :: "string \<Rightarrow> string \<times> (int \<times> int) list" where
  "strip_spaces text = strip_spaces_loop (enumerate 0 text) [] []"

text \<open>
  The dictionary \<^verbatim>\<open>tok_s_to_ns_map\<close>, filled from the items of \<^verbatim>\<open>tok_ns_to_s_map\<close> in
  order, a later item replacing an earlier one with the same key.
\<close>

definition invert_map :: "(int \<times> int) list \<Rightarrow> int \<rightharpoonup> int" where
  "invert_map ns_to_s_map = map_of (rev (map (\<lambda>(i, tok_index). (tok_index, i)) ns_to_s_map))"

text \<open>
  The translation of a position of the tokenized text into a position of the original
  text, as the source does for the start and for the end: through \<^verbatim>\<open>tok_s_to_ns_map\<close>,
  then through \<^verbatim>\<open>orig_ns_to_s_map\<close>; \<open>None\<close> when either lookup misses.
\<close>

definition translate_position :: "(int \<rightharpoonup> int) \<Rightarrow> (int \<times> int) list \<Rightarrow> int \<Rightarrow> int option" where
  "translate_position tok_s_to_ns_map orig_ns_to_s_map position =
     (case tok_s_to_ns_map position of
        None \<Rightarrow> None
      | Some ns_position \<Rightarrow> map_of orig_ns_to_s_map ns_position)"

text \<open>
  \<^verbatim>\<open>get_final_text\<close>. The basic tokenizer of the transformers library is a parameter:
  \<open>basic_tokenize do_lower_case text\<close> is \<^verbatim>\<open>BasicTokenizer(do_lower_case).tokenize(text)\<close>.
\<close>

definition get_final_text ::
  "(bool \<Rightarrow> string \<Rightarrow> string list) \<Rightarrow> string \<Rightarrow> string \<Rightarrow> bool \<Rightarrow> string" where
  "get_final_text basic_tokenize pred_text orig_text do_lower_case =
     (let tok_text = join '' '' (basic_tokenize do_lower_case orig_text);
          start_position = str_find tok_text pred_text
      in if start_position = - 1 then orig_text
         else
           (let end_position = start_position + int (length pred_text) - 1;
                (orig_ns_text, orig_ns_to_s_map) = strip_spaces orig_text;
                (tok_ns_text, tok_ns_to_s_map) = strip_spaces tok_text
            in if length orig_ns_text \<noteq> length tok_ns_text then orig_text
               else
                 (let tok_s_to_ns_map = invert_map tok_ns_to_s_map
                  in case translate_position tok_s_to_ns_map orig_ns_to_s_map start_position of
                       None \<Rightarrow> orig_text
                     | Some orig_start_position \<Rightarrow>
                         (case translate_position tok_s_to_ns_map orig_ns_to_s_map end_position of
                            None \<Rightarrow> orig_text
                          | Some orig_end_position \<Rightarrow>
                              py_slice orig_text orig_start_position (orig_end_position + 1)))))"

section \<open>Span decoders\<close>

text \<open>
  \<^verbatim>\<open>RawResult\<close> and \<^verbatim>\<open>RawResultExtended\<close>; their field \<^verbatim>\<open>unique_id\<close> is \<open>raw_unique_id\<close>
  and \<open>ext_unique_id\<close> here, apart from the field of the features. The logits and the
  log-probabilities are Python floats.
\<close>

record RawResult =
  raw_unique_id :: int
  start_logits :: "py_float list"
  end_logits :: "py_float list"

record RawResultExtended =
  ext_unique_id :: int
  start_top_log_probs :: "py_float list"
  start_top_index :: "int list"
  end_top_log_probs :: "py_float list"
  end_top_index :: "int list"
  cls_logits :: py_float

text \<open>
  \<^verbatim>\<open>PrelimPrediction\<close>, for both heads: the pointer head calls the two scores
  \<^verbatim>\<open>start_log_prob\<close> and \<^verbatim>\<open>end_log_prob\<close>.
\<close>

record PrelimPrediction =
  feature_index :: nat
  start_index :: int
  end_index :: int
  start_logit :: py_float
  end_logit :: py_float

text \<open>\<^verbatim>\<open>NbestPrediction\<close>, with fields \<^verbatim>\<open>text\<close>, \<^verbatim>\<open>start_logit\<close> and \<^verbatim>\<open>end_logit\<close>.\<close>

record NbestPrediction =
  n_text :: string
  n_start_logit :: py_float
  n_end_logit :: py_float

text \<open>
  The dictionary \<^verbatim>\<open>unique_id_to_result\<close>, a later result replacing an earlier one with
  the same id, and the list \<^verbatim>\<open>example_index_to_features[example_index]\<close>.
\<close>

definition unique_id_to_result :: "RawResult list \<Rightarrow> int \<rightharpoonup> RawResult" where
  "unique_id_to_result all_results = map_of (rev (map (\<lambda>r. (raw_unique_id r, r)) all_results))"

definition unique_id_to_result_extended :: "RawResultExtended list \<Rightarrow> int \<rightharpoonup> RawResultExtended" where
  "unique_id_to_result_extended all_results =
     map_of (rev (map (\<lambda>r. (ext_unique_id r, r)) all_results))"

definition features_of_example :: "Feature list \<Rightarrow> nat \<Rightarrow> Feature list" where
  "features_of_example all_features ex_index = filter (\<lambda>f. example_index f = ex_index) all_features"

subsection \<open>Standard head: \<^verbatim>\<open>write_predictions\<close>\<close>

text \<open>
  \<^verbatim>\<open>_get_best_indexes\<close>: the positions of the \<open>n_best_size\<close> highest logits; the sort is
  stable, so equal logits keep the order of their positions.
\<close>

definition get_best_indexes :: "py_float list \<Rightarrow> int \<Rightarrow> py_error + int list" where
  "get_best_indexes logits n_best_size =
     (case py_sorted (\<lambda>(i, s). PyFloat s) True (enumerate 0 logits) of
        Inl e \<Rightarrow> Inl e
      | Inr index_and_score \<Rightarrow> Inr (map (\<lambda>(i, s). int i) (take (nat n_best_size) index_and_score)))"

text \<open>The chain of \<^verbatim>\<open>continue\<close> statements a pair of indexes has to pass.\<close>

definition pair_valid :: "Feature \<Rightarrow> int \<Rightarrow> int \<Rightarrow> int \<Rightarrow> bool" where
  "pair_valid feature si ei max_answer_length =
     (if si \<ge> int (length (tokens feature)) then False
      else if ei \<ge> int (length (tokens feature)) then False
      else if token_to_orig_map feature si = None then False
      else if token_to_orig_map feature ei = None then False
      else if \<not> (case token_is_max_context feature si of None \<Rightarrow> False | Some v \<Rightarrow> v) then False
      else if ei < si then False
      else if ei - si + 1 > max_answer_length then False
      else True)"

text \<open>
  The two calls of \<^verbatim>\<open>_get_best_indexes\<close> and the two nested loops over
  \<^verbatim>\<open>start_indexes\<close> and \<^verbatim>\<open>end_indexes\<close> of one feature. The indexes are positions of the
  two logit lists, so the reads are in range.
\<close>

definition feature_pairs ::
  "nat \<Rightarrow> Feature \<Rightarrow> RawResult \<Rightarrow> int \<Rightarrow> int \<Rightarrow> py_error + PrelimPrediction list" where
  "feature_pairs fi feature result n_best_size max_answer_length =
     (case get_best_indexes (start_logits result) n_best_size of
        Inl e \<Rightarrow> Inl e
      | Inr start_indexes \<Rightarrow>
          (case get_best_indexes (end_logits result) n_best_size of
             Inl e \<Rightarrow> Inl e
           | Inr end_indexes \<Rightarrow>
               Inr (concat (map (\<lambda>si.
                 concat (map (\<lambda>ei.
                   if pair_valid feature si ei max_answer_length
                   then [\<lparr>feature_index = fi, start_index = si, end_index = ei,
                           start_logit = start_logits result ! nat si,
                           end_logit = end_logits result ! nat ei\<rparr>]
                   else [])
                   end_indexes))
                 start_indexes))))"

text \<open>
  The variables \<^verbatim>\<open>score_null\<close>, \<^verbatim>\<open>min_null_feature_index\<close>, \<^verbatim>\<open>null_start_logit\<close> and
  \<^verbatim>\<open>null_end_logit\<close>, and their update for one feature. The integers \<^verbatim>\<open>1000000\<close> and
  \<^verbatim>\<open>0\<close> they start from are the floats of the same value here: they are only compared
  with floats, added to floats and subtracted from, or added to each other (\<^verbatim>\<open>0 + 0\<close>),
  and each of these gives the same value for the integer and for its float.
\<close>

record null_state =
  score_null :: py_float
  min_null_feature_index :: nat
  null_start_logit :: py_float
  null_end_logit :: py_float

definition initial_null_state :: null_state where
  "initial_null_state =
     \<lparr>score_null = Fin 1000000, min_null_feature_index = 0, null_start_logit = Fin 0,
       null_end_logit = Fin 0\<rparr>"

definition update_null :: "nat \<Rightarrow> RawResult \<Rightarrow> null_state \<Rightarrow> py_error + null_state" where
  "update_null fi result ns =
     (case py_get (start_logits result) 0 of
        Inl e \<Rightarrow> Inl e
      | Inr s0 \<Rightarrow>
          (case py_get (end_logits result) 0 of
             Inl e \<Rightarrow> Inl e
           | Inr e0 \<Rightarrow>
               (let feature_null_score = float_add s0 e0
                in Inr (if float_lt feature_null_score (score_null ns)
                        then \<lparr>score_null = feature_null_score, min_null_feature_index = fi,
                               null_start_logit = s0, null_end_logit = e0\<rparr>
                        else ns))))"

text \<open>
  The loop \<^verbatim>\<open>for (feature_index, feature) in enumerate(features)\<close>. The two sorts of
  \<open>feature_pairs\<close> come before the update of the null score, as in the source; the loops
  over the pairs, which come after it there, raise nothing.
\<close>

fun features_loop ::
  "bool \<Rightarrow> int \<Rightarrow> int \<Rightarrow> (int \<rightharpoonup> RawResult) \<Rightarrow> (nat \<times> Feature) list \<Rightarrow>
   PrelimPrediction list \<times> null_state \<Rightarrow> py_error + PrelimPrediction list \<times> null_state" where
  "features_loop v2 n_best_size max_answer_length results [] st = Inr st"
| "features_loop v2 n_best_size max_answer_length results ((fi, feature) # rest) (prelim, ns) =
     (case results (unique_id feature) of
        None \<Rightarrow> Inl KeyError
      | Some result \<Rightarrow>
          (case feature_pairs fi feature result n_best_size max_answer_length of
             Inl e \<Rightarrow> Inl e
           | Inr pairs \<Rightarrow>
               (case (if v2 then update_null fi result ns else Inr ns) of
                  Inl e \<Rightarrow> Inl e
                | Inr ns' \<Rightarrow>
                    features_loop v2 n_best_size max_answer_length results rest
                      (prelim @ pairs, ns'))))"

definition null_prediction :: "null_state \<Rightarrow> PrelimPrediction" where
  "null_prediction ns =
     \<lparr>feature_index = min_null_feature_index ns, start_index = 0, end_index = 0,
       start_logit = null_start_logit ns, end_logit = null_end_logit ns\<rparr>"

text \<open>
  The preliminary predictions of one example, sorted by descending total score, and the
  null state. \<open>v2\<close> is \<^verbatim>\<open>version_2_with_negative\<close>.
\<close>

definition prelim_predictions ::
  "bool \<Rightarrow> int \<Rightarrow> int \<Rightarrow> (int \<rightharpoonup> RawResult) \<Rightarrow> Feature list \<Rightarrow>
   py_error + PrelimPrediction list \<times> null_state" where
  "prelim_predictions v2 n_best_size max_answer_length results features =
     (case features_loop v2 n_best_size max_answer_length results (enumerate 0 features)
             ([], initial_null_state) of
        Inl e \<Rightarrow> Inl e
      | Inr (prelim, ns) \<Rightarrow>
          (case py_sorted (\<lambda>x. PyFloat (float_add (start_logit x) (end_logit x))) True
                  (if v2 then prelim @ [null_prediction ns] else prelim) of
             Inl e \<Rightarrow> Inl e
           | Inr sorted_prelim \<Rightarrow> Inr (sorted_prelim, ns)))"

text \<open>\<^verbatim>\<open>s.replace(old, new)\<close> for a non-empty \<open>old\<close>, and \<^verbatim>\<open>s.strip()\<close>.\<close>

function replace_str :: "string \<Rightarrow> string \<Rightarrow> string \<Rightarrow> string" where
  "replace_str old new [] = []"
| "replace_str old new (c # cs) =
     (if old \<noteq> [] \<and> take (length old) (c # cs) = old
      then new @ replace_str old new (drop (length old) (c # cs))
      else c # replace_str old new cs)"
  by pat_completeness auto
termination
  by (relation "measure (\<lambda>(old, new, s). length s)") auto

definition strip :: "string \<Rightarrow> string" where
  "strip s = rev (dropWhile is_space (rev (dropWhile is_space s)))"

text \<open>The text of a non-null prediction, de-tokenized and aligned with the document.\<close>

definition final_text_of ::
  "(bool \<Rightarrow> string \<Rightarrow> string list) \<Rightarrow> bool \<Rightarrow> Example \<Rightarrow> Feature \<Rightarrow> PrelimPrediction \<Rightarrow>
   py_error + string" where
  "final_text_of basic_tokenize do_lower_case example feature pred =
     (let tok_tokens = py_slice (tokens feature) (start_index pred) (end_index pred + 1)
      in case token_to_orig_map feature (start_index pred) of
           None \<Rightarrow> Inl KeyError
         | Some orig_doc_start \<Rightarrow>
             (case token_to_orig_map feature (end_index pred) of
                None \<Rightarrow> Inl KeyError
              | Some orig_doc_end \<Rightarrow>
                  (let orig_tokens = py_slice (doc_tokens example) (int orig_doc_start)
                                       (int orig_doc_end + 1);
                       tok_text0 = join '' '' tok_tokens;
                       tok_text1 = replace_str '' ##'' [] tok_text0;
                       tok_text2 = replace_str ''##'' [] tok_text1;
                       tok_text3 = strip tok_text2;
                       tok_text = join '' '' (split tok_text3);
                       orig_text = join '' '' orig_tokens
                   in Inr (get_final_text basic_tokenize tok_text orig_text do_lower_case))))"

text \<open>
  The loop over the sorted preliminary predictions that fills \<^verbatim>\<open>nbest\<close>; the
  dictionary \<^verbatim>\<open>seen_predictions\<close> only ever maps to \<^verbatim>\<open>True\<close> and is the set of its keys.
\<close>

fun nbest_loop ::
  "(bool \<Rightarrow> string \<Rightarrow> string list) \<Rightarrow> bool \<Rightarrow> int \<Rightarrow> Example \<Rightarrow> Feature list \<Rightarrow>
   PrelimPrediction list \<Rightarrow> string set \<times> NbestPrediction list \<Rightarrow>
   py_error + string set \<times> NbestPrediction list" where
  "nbest_loop basic_tokenize do_lower_case n_best_size example features [] st = Inr st"
| "nbest_loop basic_tokenize do_lower_case n_best_size example features (pred # rest) (seen, nbest) =
     (if int (length nbest) \<ge> n_best_size then Inr (seen, nbest)
      else
        (case py_get features (int (feature_index pred)) of
           Inl e \<Rightarrow> Inl e
         | Inr feature \<Rightarrow>
             if start_index pred > 0
             then
               (case final_text_of basic_tokenize do_lower_case example feature pred of
                  Inl e \<Rightarrow> Inl e
                | Inr final_text \<Rightarrow>
                    if final_text \<in> seen
                    then nbest_loop basic_tokenize do_lower_case n_best_size example features rest
                           (seen, nbest)
                    else nbest_loop basic_tokenize do_lower_case n_best_size example features rest
                           (insert final_text seen,
                            nbest @ [\<lparr>n_text = final_text, n_start_logit = start_logit pred,
                                       n_end_logit = end_logit pred\<rparr>]))
             else nbest_loop basic_tokenize do_lower_case n_best_size example features rest
                    (insert [] seen,
                     nbest @ [\<lparr>n_text = [], n_start_logit = start_logit pred,
                                n_end_logit = end_logit pred\<rparr>])))"

definition null_entry :: "null_state \<Rightarrow> NbestPrediction" where
  "null_entry ns =
     \<lparr>n_text = [], n_start_logit = null_start_logit ns, n_end_logit = null_end_logit ns\<rparr>"

definition placeholder :: NbestPrediction where
  "placeholder = \<lparr>n_text = ''empty'', n_start_logit = Fin 0, n_end_logit = Fin 0\<rparr>"

text \<open>
  After the loop: the forced empty entry and the placeholder of the null-answer branch,
  then the placeholder for an empty list.
\<close>

definition complete_nbest ::
  "bool \<Rightarrow> null_state \<Rightarrow> string set \<times> NbestPrediction list \<Rightarrow> NbestPrediction list" where
  "complete_nbest v2 ns st =
     (let (seen, nbest) = st;
          nbest1 = (if v2
                    then (let nb = (if [] \<notin> seen then nbest @ [null_entry ns] else nbest)
                          in if length nb = 1 then placeholder # nb else nb)
                    else nbest)
      in if nbest1 = [] then nbest1 @ [placeholder] else nbest1)"

text \<open>\<^verbatim>\<open>best_non_null_entry\<close>: the first entry whose text is not empty.\<close>

definition best_non_null_entry :: "NbestPrediction list \<Rightarrow> NbestPrediction option" where
  "best_non_null_entry nbest = List.find (\<lambda>entry. n_text entry \<noteq> []) nbest"

text \<open>
  What the body of the loop over the examples computes for one example: the n-best
  list (without the softmax probabilities, which are not modelled), the prediction, and
  with null answers the score difference, the null score and the best non-null entry.
\<close>

record example_output =
  out_nbest :: "NbestPrediction list"
  out_prediction :: string
  out_score_diff :: "py_float option"
  out_score_null :: py_float

definition decode_example ::
  "(bool \<Rightarrow> string \<Rightarrow> string list) \<Rightarrow> bool \<Rightarrow> bool \<Rightarrow> py_float \<Rightarrow> int \<Rightarrow> int \<Rightarrow>
   (int \<rightharpoonup> RawResult) \<Rightarrow> Example \<Rightarrow> Feature list \<Rightarrow> py_error + example_output" where
  "decode_example basic_tokenize do_lower_case v2 null_score_diff_threshold n_best_size
     max_answer_length results example features =
     (case prelim_predictions v2 n_best_size max_answer_length results features of
        Inl e \<Rightarrow> Inl e
      | Inr (prelim, ns) \<Rightarrow>
          (case nbest_loop basic_tokenize do_lower_case n_best_size example features prelim ({}, []) of
             Inl e \<Rightarrow> Inl e
           | Inr st \<Rightarrow>
               (let nbest = complete_nbest v2 ns st
                in if \<not> v2
                   then (case nbest of
                           [] \<Rightarrow> Inl IndexError
                         | entry # _ \<Rightarrow>
                             Inr \<lparr>out_nbest = nbest, out_prediction = n_text entry,
                                   out_score_diff = None, out_score_null = score_null ns\<rparr>)
                   else (case best_non_null_entry nbest of
                           None \<Rightarrow> Inl AttributeError
                         | Some best \<Rightarrow>
                             (let score_diff =
                                    float_sub (float_sub (score_null ns) (n_start_logit best))
                                      (n_end_logit best)
                              in Inr \<lparr>out_nbest = nbest,
                                      out_prediction =
                                        (if float_gt score_diff null_score_diff_threshold then []
                                         else n_text best),
                                      out_score_diff = Some score_diff,
                                      out_score_null = score_null ns\<rparr>)))))"

text \<open>
  The loop over \<^verbatim>\<open>enumerate(all_examples)\<close>, filling \<^verbatim>\<open>all_predictions\<close>,
  \<^verbatim>\<open>all_nbest_json\<close> and \<^verbatim>\<open>scores_diff_json\<close>.
\<close>

fun examples_loop ::
  "(bool \<Rightarrow> string \<Rightarrow> string list) \<Rightarrow> bool \<Rightarrow> bool \<Rightarrow> py_float \<Rightarrow> int \<Rightarrow> int \<Rightarrow>
   (int \<rightharpoonup> RawResult) \<Rightarrow> Feature list \<Rightarrow> (nat \<times> Example) list \<Rightarrow>
   (string \<rightharpoonup> string) \<times> (string \<rightharpoonup> NbestPrediction list) \<times> (string \<rightharpoonup> py_float) \<Rightarrow>
   py_error +
   (string \<rightharpoonup> string) \<times> (string \<rightharpoonup> NbestPrediction list) \<times> (string \<rightharpoonup> py_float)" where
  "examples_loop basic_tokenize do_lower_case v2 thr n_best_size max_answer_length results
     all_features [] st = Inr st"
| "examples_loop basic_tokenize do_lower_case v2 thr n_best_size max_answer_length results
     all_features ((ex_index, example) # rest) (all_predictions, all_nbest_json, scores_diff_json) =
     (case decode_example basic_tokenize do_lower_case v2 thr n_best_size max_answer_length results
             example (features_of_example all_features ex_index) of
        Inl e \<Rightarrow> Inl e
      | Inr out \<Rightarrow>
          examples_loop basic_tokenize do_lower_case v2 thr n_best_size max_answer_length results
            all_features rest
            (all_predictions(qas_id example \<mapsto> out_prediction out),
             all_nbest_json(qas_id example \<mapsto> out_nbest out),
             (case out_score_diff out of
                None \<Rightarrow> scores_diff_json
              | Some score_diff \<Rightarrow> scores_diff_json(qas_id example \<mapsto> score_diff))))"

definition write_predictions ::
  "(bool \<Rightarrow> string \<Rightarrow> string list) \<Rightarrow> Example list \<Rightarrow> Feature list \<Rightarrow> RawResult list \<Rightarrow>
   int \<Rightarrow> int \<Rightarrow> bool \<Rightarrow> bool \<Rightarrow> py_float \<Rightarrow>
   py_error +
   (string \<rightharpoonup> string) \<times> (string \<rightharpoonup> NbestPrediction list) \<times> (string \<rightharpoonup> py_float)" where
  "write_predictions basic_tokenize all_examples all_features all_results n_best_size
     max_answer_length do_lower_case v2 null_score_diff_threshold =
     examples_loop basic_tokenize do_lower_case v2 null_score_diff_threshold n_best_size
       max_answer_length (unique_id_to_result all_results) all_features
       (enumerate 0 all_examples) (Map.empty, Map.empty, Map.empty)"

subsection \<open>Pointer head: the preliminary predictions of \<^verbatim>\<open>write_predictions_extended\<close>\<close>

text \<open>
  The two nested loops \<^verbatim>\<open>for i in range(start_n_top)\<close> and \<^verbatim>\<open>for j in range(end_n_top)\<close>
  of one feature, over the pairs \<open>(i, j)\<close> in order.
\<close>

fun extended_pairs_loop ::
  "nat \<Rightarrow> Feature \<Rightarrow> RawResultExtended \<Rightarrow> int \<Rightarrow> int \<Rightarrow> (nat \<times> nat) list \<Rightarrow>
   PrelimPrediction list \<Rightarrow> py_error + PrelimPrediction list" where
  "extended_pairs_loop fi feature result end_n_top max_answer_length [] prelim = Inr prelim"
| "extended_pairs_loop fi feature result end_n_top max_answer_length ((i, j) # rest) prelim =
     (case py_get (start_top_log_probs result) (int i) of
        Inl e \<Rightarrow> Inl e
      | Inr start_log_prob \<Rightarrow>
     (case py_get (start_top_index result) (int i) of
        Inl e \<Rightarrow> Inl e
      | Inr si \<Rightarrow>
     (let j_index = int i * end_n_top + int j
      in case py_get (end_top_log_probs result) j_index of
        Inl e \<Rightarrow> Inl e
      | Inr end_log_prob \<Rightarrow>
     (case py_get (end_top_index result) j_index of
        Inl e \<Rightarrow> Inl e
      | Inr ei \<Rightarrow>
          if si \<ge> paragraph_len feature - 1
          then extended_pairs_loop fi feature result end_n_top max_answer_length rest prelim
          else if ei \<ge> paragraph_len feature - 1
          then extended_pairs_loop fi feature result end_n_top max_answer_length rest prelim
          else if \<not> (case token_is_max_context feature si of None \<Rightarrow> False | Some v \<Rightarrow> v)
          then extended_pairs_loop fi feature result end_n_top max_answer_length rest prelim
          else if ei < si
          then extended_pairs_loop fi feature result end_n_top max_answer_length rest prelim
          else if ei - si + 1 > max_answer_length
          then extended_pairs_loop fi feature result end_n_top max_answer_length rest prelim
          else extended_pairs_loop fi feature result end_n_top max_answer_length rest
                 (prelim @ [\<lparr>feature_index = fi, start_index = si, end_index = ei,
                              start_logit = start_log_prob, end_logit = end_log_prob\<rparr>])))))"

text \<open>
  The loop over the features. \<^verbatim>\<open>min(score_null, cur_null_score)\<close> is \<^verbatim>\<open>cur_null_score\<close>
  when that is less than \<^verbatim>\<open>score_null\<close>, and \<^verbatim>\<open>score_null\<close> otherwise.
\<close>

fun extended_features_loop ::
  "int \<Rightarrow> int \<Rightarrow> int \<Rightarrow> (int \<rightharpoonup> RawResultExtended) \<Rightarrow> (nat \<times> Feature) list \<Rightarrow>
   PrelimPrediction list \<times> py_float \<Rightarrow> py_error + PrelimPrediction list \<times> py_float" where
  "extended_features_loop start_n_top end_n_top max_answer_length results [] st = Inr st"
| "extended_features_loop start_n_top end_n_top max_answer_length results ((fi, feature) # rest)
     (prelim, null_score) =
     (case results (unique_id feature) of
        None \<Rightarrow> Inl KeyError
      | Some result \<Rightarrow>
          (case extended_pairs_loop fi feature result end_n_top max_answer_length
                  (List.product [0..<nat start_n_top] [0..<nat end_n_top]) prelim of
             Inl e \<Rightarrow> Inl e
           | Inr prelim' \<Rightarrow>
               extended_features_loop start_n_top end_n_top max_answer_length results rest
                 (prelim',
                  if float_lt (cls_logits result) null_score then cls_logits result
                  else null_score)))"

definition prelim_predictions_extended ::
  "int \<Rightarrow> int \<Rightarrow> int \<Rightarrow> (int \<rightharpoonup> RawResultExtended) \<Rightarrow> Feature list \<Rightarrow>
   py_error + PrelimPrediction list \<times> py_float" where
  "prelim_predictions_extended start_n_top end_n_top max_answer_length results features =
     (case extended_features_loop start_n_top end_n_top max_answer_length results
             (enumerate 0 features) ([], Fin 1000000) of
        Inl e \<Rightarrow> Inl e
      | Inr (prelim, null_score) \<Rightarrow>
          (case py_sorted (\<lambda>x. PyFloat (float_add (start_logit x) (end_logit x))) True prelim of
             Inl e \<Rightarrow> Inl e
           | Inr sorted_prelim \<Rightarrow> Inr (sorted_prelim, null_score)))"

text \<open>
  The keys of the two position dictionaries of a feature as the feature builder leaves
  them: the \<^verbatim>\<open>paragraph_len\<close> positions from \<open>off\<close> on, the same in both.
\<close>

definition doc_keys :: "Feature \<Rightarrow> int \<Rightarrow> bool" where
  "doc_keys feature off =
     (0 \<le> off \<and>
      (\<forall>k. (token_to_orig_map feature k \<noteq> None) = (off \<le> k \<and> k < off + paragraph_len feature)) \<and>
      (\<forall>k. (token_is_max_context feature k \<noteq> None) = (token_to_orig_map feature k \<noteq> None)))"

section \<open>Scorer\<close>

subsection \<open>\<^verbatim>\<open>normalize_answer\<close>\<close>

definition lower_char :: "char \<Rightarrow> char" where
  "lower_char c =
     (case map_of (zip ''ABCDEFGHIJKLMNOPQRSTUVWXYZ'' ''abcdefghijklmnopqrstuvwxyz'') c of
        Some d \<Rightarrow> d
      | None \<Rightarrow> c)"

definition lower :: "string \<Rightarrow> string" where
  "lower text = map lower_char text"

text \<open>\<^verbatim>\<open>string.punctuation\<close>; the double quote, the single quote and the backslash by code.\<close>

definition punctuation :: "string" where
  "punctuation =
     ''!'' @ [CHR 0x22] @ ''#$%&'' @ [CHR 0x27] @ ''()*+,-./:;<=>?@['' @ [CHR 0x5C] @ '']^_`{|}~''"

definition remove_punc :: "string \<Rightarrow> string" where
  "remove_punc text = filter (\<lambda>ch. ch \<notin> set punctuation) text"

text \<open>The characters the regular expression class \<^verbatim>\<open>\w\<close> matches, within ASCII.\<close>

definition is_word_char :: "char \<Rightarrow> bool" where
  "is_word_char c =
     (c \<in> set (''abcdefghijklmnopqrstuvwxyz'' @ ''ABCDEFGHIJKLMNOPQRSTUVWXYZ'' @ ''0123456789_''))"

text \<open>
  The pattern \<^verbatim>\<open>\b(a|an|the)\b\<close> tried at the head of \<open>s\<close>, the position being a word
  boundary already: the first alternative, in the order written, that is a prefix of \<open>s\<close>
  and is followed by a word boundary. The result is the text after the match.
\<close>

definition alt_matches :: "string \<Rightarrow> string \<Rightarrow> bool" where
  "alt_matches alt s =
     (take (length alt) s = alt \<and>
      (case drop (length alt) s of [] \<Rightarrow> True | d # _ \<Rightarrow> \<not> is_word_char d))"

definition article_rest :: "string \<Rightarrow> string option" where
  "article_rest s =
     (if alt_matches ''a'' s then Some (drop 1 s)
      else if alt_matches ''an'' s then Some (drop 2 s)
      else if alt_matches ''the'' s then Some (drop 3 s)
      else None)"

text \<open>
  \<^verbatim>\<open>re.sub(regex, ' ', text)\<close>: a left-to-right scan replacing every match by a space.
  \<open>prev\<close> tells whether the character before the position is a word character.
\<close>

function sub_articles :: "bool \<Rightarrow> string \<Rightarrow> string" where
  "sub_articles prev [] = []"
| "sub_articles prev (c # cs) =
     (case (if prev then None else article_rest (c # cs)) of
        Some rest \<Rightarrow> CHR '' '' # sub_articles True rest
      | None \<Rightarrow> c # sub_articles (is_word_char c) cs)"
  by pat_completeness auto
termination
proof (relation "measure (\<lambda>(prev, s). length s)")
  show "wf (measure (\<lambda>(prev, s). length s))"
    by simp
next
  fix prev :: bool and c :: char and cs rest :: string
  assume "(if prev then None else article_rest (c # cs)) = Some rest"
  then have "length rest < length (c # cs)"
    by (auto simp: article_rest_def split: if_splits)
  then show "((True, rest), (prev, c # cs)) \<in> measure (\<lambda>(prev, s). length s)"
    by simp
next
  fix prev :: bool and c :: char and cs :: string
  show "((is_word_char c, cs), (prev, c # cs)) \<in> measure (\<lambda>(prev, s). length s)"
    by simp
qed

definition remove_articles :: "string \<Rightarrow> string" where
  "remove_articles text = sub_articles False text"

definition white_space_fix :: "string \<Rightarrow> string" where
  "white_space_fix text = join '' '' (split text)"

definition normalize_answer :: "string \<Rightarrow> string" where
  "normalize_answer s = white_space_fix (remove_articles (remove_punc (lower s)))"

definition get_tokens :: "string \<Rightarrow> string list" where
  "get_tokens s = (if s = [] then [] else split (normalize_answer s))"

definition compute_exact :: "string \<Rightarrow> string \<Rightarrow> rat" where
  "compute_exact a_gold a_pred = (if normalize_answer a_gold = normalize_answer a_pred then 1 else 0)"

subsection \<open>\<^verbatim>\<open>compute_f1\<close>\<close>

text \<open>
  \<^verbatim>\<open>Counter(xs) & Counter(ys)\<close>: every element of \<open>xs\<close> with the minimum of its two
  counts, where that is positive.
\<close>

definition counter_and :: "'a list \<Rightarrow> 'a list \<Rightarrow> ('a \<times> nat) list" where
  "counter_and xs ys =
     filter (\<lambda>(t, n). 0 < n) (map (\<lambda>t. (t, min (count_list xs t) (count_list ys t))) (remdups xs))"

definition compute_f1 :: "string \<Rightarrow> string \<Rightarrow> rat" where
  "compute_f1 a_gold a_pred =
     (let gold_toks = get_tokens a_gold;
          pred_toks = get_tokens a_pred;
          common = counter_and gold_toks pred_toks;
          num_same = sum_list (map snd common)
      in if length gold_toks = 0 \<or> length pred_toks = 0
         then (if gold_toks = pred_toks then 1 else 0)
         else if num_same = 0 then 0
         else
           (let precision = 1 * of_nat num_same / of_nat (length pred_toks);
                recall = 1 * of_nat num_same / of_nat (length gold_toks)
            in (2 * precision * recall) / (precision + recall)))"

subsection \<open>\<^verbatim>\<open>find_best_thresh_v2\<close>\<close>

text \<open>
  A dictionary is the list of its items in insertion order, the keys distinct.
  \<^verbatim>\<open>d[k]\<close> raises \<^verbatim>\<open>KeyError\<close> for a missing key. The raw scores and the null scores are
  Python numbers: an exact-match score is an integer, an F1 score an integer or a float.
\<close>

definition dict_get :: "('k \<times> 'v) list \<Rightarrow> 'k \<Rightarrow> py_error + 'v" where
  "dict_get d k = (case map_of d k of None \<Rightarrow> Inl KeyError | Some v \<Rightarrow> Inr v)"

text \<open>The value \<^verbatim>\<open>diff\<close> of one question in the sweep.\<close>

definition threshold_diff ::
  "(string \<times> string) list \<Rightarrow> (string \<times> py_num) list \<Rightarrow> (string \<times> bool) list \<Rightarrow> string \<Rightarrow>
   py_error + py_num" where
  "threshold_diff preds scores qid_to_has_ans qid =
     (case dict_get qid_to_has_ans qid of
        Inl e \<Rightarrow> Inl e
      | Inr has_ans \<Rightarrow>
          if has_ans then dict_get scores qid
          else (case dict_get preds qid of
                  Inl e \<Rightarrow> Inl e
                | Inr pred \<Rightarrow> Inr (if pred \<noteq> [] then PyInt (- 1) else PyInt 0)))"

text \<open>
  The first loop over \<^verbatim>\<open>qid_list\<close>; the state is \<^verbatim>\<open>cur_score\<close>, \<^verbatim>\<open>best_score\<close> and
  \<^verbatim>\<open>best_thresh\<close>.
\<close>

fun sweep_loop ::
  "(string \<times> string) list \<Rightarrow> (string \<times> py_num) list \<Rightarrow> (string \<times> py_num) list \<Rightarrow>
   (string \<times> bool) list \<Rightarrow> string list \<Rightarrow> py_num \<times> py_num \<times> py_num \<Rightarrow>
   py_error + py_num \<times> py_num" where
  "sweep_loop preds scores na_probs qid_to_has_ans [] (cur_score, best_score, best_thresh) =
     Inr (best_score, best_thresh)"
| "sweep_loop preds scores na_probs qid_to_has_ans (qid # rest) (cur_score, best_score, best_thresh) =
     (if map_of scores qid = None
      then sweep_loop preds scores na_probs qid_to_has_ans rest (cur_score, best_score, best_thresh)
      else
        (case threshold_diff preds scores qid_to_has_ans qid of
           Inl e \<Rightarrow> Inl e
         | Inr diff \<Rightarrow>
             (case py_add cur_score diff of
                Inl e \<Rightarrow> Inl e
              | Inr cur_score' \<Rightarrow>
                  if py_gt cur_score' best_score
                  then (case dict_get na_probs qid of
                          Inl e \<Rightarrow> Inl e
                        | Inr na \<Rightarrow>
                            sweep_loop preds scores na_probs qid_to_has_ans rest
                              (cur_score', cur_score', na))
                  else sweep_loop preds scores na_probs qid_to_has_ans rest
                         (cur_score', best_score, best_thresh))))"

text \<open>The second loop: the sum and the number of the scores of the questions with an answer.\<close>

fun has_ans_loop ::
  "(string \<times> py_num) list \<Rightarrow> (string \<times> bool) list \<Rightarrow> string list \<Rightarrow> py_num \<times> nat \<Rightarrow>
   py_error + py_num \<times> nat" where
  "has_ans_loop scores qid_to_has_ans [] (has_ans_score, has_ans_cnt) =
     Inr (has_ans_score, has_ans_cnt)"
| "has_ans_loop scores qid_to_has_ans (qid # rest) (has_ans_score, has_ans_cnt) =
     (case dict_get qid_to_has_ans qid of
        Inl e \<Rightarrow> Inl e
      | Inr has_ans \<Rightarrow>
          if \<not> has_ans then has_ans_loop scores qid_to_has_ans rest (has_ans_score, has_ans_cnt)
          else
            (case map_of scores qid of
               None \<Rightarrow> has_ans_loop scores qid_to_has_ans rest (has_ans_score, Suc has_ans_cnt)
             | Some s \<Rightarrow>
                 (case py_add has_ans_score s of
                    Inl e \<Rightarrow> Inl e
                  | Inr has_ans_score' \<Rightarrow>
                      has_ans_loop scores qid_to_has_ans rest (has_ans_score', Suc has_ans_cnt))))"

text \<open>
  \<^verbatim>\<open>num_no_ans\<close>, and \<^verbatim>\<open>qid_list\<close>: the keys of \<^verbatim>\<open>na_probs\<close> in ascending order of their
  values, keys with equal values in their order in the dictionary.
\<close>

definition num_no_ans :: "(string \<times> bool) list \<Rightarrow> nat" where
  "num_no_ans qid_to_has_ans =
     length (filter (\<lambda>k. map_of qid_to_has_ans k = Some False) (map fst qid_to_has_ans))"

definition qid_list :: "(string \<times> py_num) list \<Rightarrow> py_error + string list" where
  "qid_list na_probs =
     (case py_sorted snd False na_probs of
        Inl e \<Rightarrow> Inl e
      | Inr items \<Rightarrow> Inr (map fst items))"

text \<open>
  The function. The first component of the result is
  \<^verbatim>\<open>100.0 * best_score / len(scores)\<close> and the last
  \<^verbatim>\<open>1.0 * has_ans_score / has_ans_cnt\<close>, each a product of floats divided by the float
  of an integer.
\<close>

definition find_best_thresh_v2 ::
  "(string \<times> string) list \<Rightarrow> (string \<times> py_num) list \<Rightarrow> (string \<times> py_num) list \<Rightarrow>
   (string \<times> bool) list \<Rightarrow> py_error + py_float \<times> py_num \<times> py_float" where
  "find_best_thresh_v2 preds scores na_probs qid_to_has_ans =
     (let cur_score = PyInt (int (num_no_ans qid_to_has_ans))
      in case qid_list na_probs of
           Inl e \<Rightarrow> Inl e
         | Inr qids \<Rightarrow>
      (case sweep_loop preds scores na_probs qid_to_has_ans qids
              (cur_score, cur_score, PyFloat (Fin 0)) of
           Inl e \<Rightarrow> Inl e
         | Inr (best_score, best_thresh) \<Rightarrow>
      (case has_ans_loop scores qid_to_has_ans qids (PyInt 0, 0) of
           Inl e \<Rightarrow> Inl e
         | Inr (has_ans_score, has_ans_cnt) \<Rightarrow>
      (case py_mul_float (Fin 100) best_score of
           Inl e \<Rightarrow> Inl e
         | Inr best_100 \<Rightarrow>
      (case py_div_float best_100 (PyInt (int (length scores))) of
           Inl e \<Rightarrow> Inl e
         | Inr best \<Rightarrow>
      (case py_mul_float (Fin 1) has_ans_score of
           Inl e \<Rightarrow> Inl e
         | Inr has_ans_1 \<Rightarrow>
      (case py_div_float has_ans_1 (PyInt (int has_ans_cnt)) of
           Inl e \<Rightarrow> Inl e
         | Inr has_ans_avg \<Rightarrow> Inr (best, best_thresh, has_ans_avg))))))))"

text \<open>
  The questions the sweep visits (those with a score), and the running totals of their
  differences \<open>ds\<close> from \<open>cur_score\<close> on: the total before the first question, then the total
  after each question, added up as the loop adds them.
\<close>

definition swept :: "(string \<times> py_num) list \<Rightarrow> string list \<Rightarrow> string list" where
  "swept scores qids = filter (\<lambda>qid. map_of scores qid \<noteq> None) qids"

fun running_totals :: "py_num \<Rightarrow> py_num list \<Rightarrow> py_error + py_num list" where
  "running_totals cur_score [] = Inr [cur_score]"
| "running_totals cur_score (d # ds) =
     (case py_add cur_score d of
        Inl e \<Rightarrow> Inl e
      | Inr cur_score' \<Rightarrow>
          (case running_totals cur_score' ds of
             Inl e \<Rightarrow> Inl e
           | Inr totals \<Rightarrow> Inr (cur_score # totals)))"

text \<open>
  The change of the running total as the specification words it, to compare with
  \<open>threshold_diff\<close>: +1 for a question without gold answer for which none was predicted.
\<close>

definition spec_threshold_diff :: "bool \<Rightarrow> string \<Rightarrow> py_num \<Rightarrow> py_num" where
  "spec_threshold_diff has_ans pred score =
     (if has_ans then score else if pred = [] then PyInt 1 else PyInt (- 1))"

section \<open>Sample inputs\<close>

text \<open>
  The default keyword arguments of the builder with a maximum sequence length of 7, and a
  tokenizer that splits at whitespace and takes the length of a token as its id.
\<close>

definition sample_args :: builder_args where
  "sample_args = \<lparr>max_seq_length = 7, doc_stride = 1, max_query_length = 1, cls_token_at_end = False,
     cls_token = ''[CLS]'', sep_token = ''[SEP]'', pad_token = 0, sequence_a_segment_id = 0,
     sequence_b_segment_id = 1, cls_token_segment_id = 0, pad_token_segment_id = 0,
     mask_padding_with_zero = True, sequence_a_is_doc = False\<rparr>"

definition sample_tokenizer :: tokenizer where
  "sample_tokenizer = \<lparr>tokenize = split, convert_tokens_to_ids = map (\<lambda>t. int (length t))\<rparr>"

text \<open>A basic tokenizer that lowercases on demand and splits at whitespace.\<close>

definition sample_basic_tokenize :: "bool \<Rightarrow> string \<Rightarrow> string list" where
  "sample_basic_tokenize do_lower_case s = split (if do_lower_case then lower s else s)"

text \<open>
  A feature in the default layout for the question \<open>who\<close> and the document
  \<open>John Smith\<close>, whose second word is two sub-tokens, with the logits of a model for it;
  and a feature with the chunk first, with the top-k output of a pointer head.
\<close>

definition sample_feature :: Feature where
  "sample_feature =
     \<lparr>unique_id = 1000000000, example_index = 0, doc_span_index = 0,
       tokens = [''[CLS]'', ''who'', ''[SEP]'', ''john'', ''smi'', ''##th'', ''[SEP]''],
       token_to_orig_map = [3 \<mapsto> 0, 4 \<mapsto> 1, 5 \<mapsto> 1],
       token_is_max_context = [3 \<mapsto> True, 4 \<mapsto> True, 5 \<mapsto> True],
       input_ids = [1, 2, 3, 4, 5, 6, 3], input_mask = [1, 1, 1, 1, 1, 1, 1],
       segment_ids = [0, 0, 0, 1, 1, 1, 1], cls_index = 0, p_mask = [0, 1, 1, 0, 0, 0, 1],
       paragraph_len = 3\<rparr>"

definition sample_result :: RawResult where
  "sample_result =
     \<lparr>raw_unique_id = 1000000000,
       start_logits = [Fin 1, Fin 0, Fin 0, Fin 5, Fin 2, Fin 0, Fin 0],
       end_logits = [Fin 1, Fin 0, Fin 0, Fin 1, Fin 0, Fin 4, Fin 0]\<rparr>"

definition sample_example :: Example where
  "sample_example =
     \<lparr>qas_id = ''q1'', question_text = ''who'', doc_tokens = [''John'', ''Smith'']\<rparr>"

definition sample_feature_doc_first :: Feature where
  "sample_feature_doc_first =
     \<lparr>unique_id = 1000000000, example_index = 0, doc_span_index = 0,
       tokens = [''john'', ''smi'', ''##th'', ''[SEP]'', ''who'', ''[SEP]'', ''[CLS]''],
       token_to_orig_map = [0 \<mapsto> 0, 1 \<mapsto> 1, 2 \<mapsto> 1],
       token_is_max_context = [0 \<mapsto> True, 1 \<mapsto> True, 2 \<mapsto> True],
       input_ids = [4, 5, 6, 3, 2, 3, 1], input_mask = [1, 1, 1, 1, 1, 1, 1],
       segment_ids = [0, 0, 0, 0, 1, 1, 2], cls_index = 6, p_mask = [0, 0, 0, 1, 1, 1, 0],
       paragraph_len = 3\<rparr>"

definition sample_result_extended :: RawResultExtended where
  "sample_result_extended =
     \<lparr>ext_unique_id = 1000000000, start_top_log_probs = [Fin (- 1), Fin (- 2)],
       start_top_index = [0, 1],
       end_top_log_probs = [Fin (- 1), Fin (- 2), Fin (- 3), Fin (- 4)],
       end_top_index = [1, 0, 1, 2], cls_logits = Fin (- 5)\<rparr>"

text \<open>Logits for the same feature with a high score for the null answer.\<close>

definition sample_result_null :: RawResult where
  "sample_result_null =
     \<lparr>raw_unique_id = 1000000000,
       start_logits = [Fin 10, Fin 0, Fin 0, Fin 5, Fin 2, Fin 0, Fin 0],
       end_logits = [Fin 1, Fin 0, Fin 0, Fin 1, Fin 0, Fin 4, Fin 0]\<rparr>"

text \<open>
  Logits for the same feature where rounding decides: the null score is the float sum
  \<^verbatim>\<open>0.1 + 0.2\<close>, which is \<^verbatim>\<open>0.30000000000000004\<close>, and the one span that passes the
  filters has the logits \<^verbatim>\<open>0.3\<close> and \<^verbatim>\<open>0.0\<close>.
\<close>

definition sample_result_rounding :: RawResult where
  "sample_result_rounding =
     \<lparr>raw_unique_id = 1000000000,
       start_logits = [round_to_double (1 / 10), Fin (- 1), Fin (- 1), round_to_double (3 / 10),
                       Fin (- 1), Fin (- 1), Fin (- 1)],
       end_logits = [round_to_double (2 / 10), Fin (- 1), Fin (- 1), Fin 0,
                     Fin (- 1), Fin (- 1), Fin (- 1)]\<rparr>"

text \<open>
  A second feature of the same example, and logits for the two features whose null
  scores are equal as floats: \<^verbatim>\<open>0.30000000000000004 + 0.0\<close> for the first and
  \<^verbatim>\<open>0.1 + 0.2\<close> for the second.
\<close>

definition sample_feature_second :: Feature where
  "sample_feature_second = sample_feature\<lparr>unique_id := 1000000001, doc_span_index := 1\<rparr>"

definition sample_result_tie_first :: RawResult where
  "sample_result_tie_first =
     \<lparr>raw_unique_id = 1000000000,
       start_logits = [Fin (1351079888211149 / 4503599627370496), Fin (- 1), Fin (- 1), Fin (- 1),
                       Fin (- 1), Fin (- 1), Fin (- 1)],
       end_logits = [Fin 0, Fin (- 1), Fin (- 1), Fin (- 1), Fin (- 1), Fin (- 1), Fin (- 1)]\<rparr>"

definition sample_result_tie_second :: RawResult where
  "sample_result_tie_second =
     \<lparr>raw_unique_id = 1000000001,
       start_logits = [round_to_double (1 / 10), Fin (- 1), Fin (- 1), Fin (- 1),
                       Fin (- 1), Fin (- 1), Fin (- 1)],
       end_logits = [round_to_double (2 / 10), Fin (- 1), Fin (- 1), Fin (- 1),
                     Fin (- 1), Fin (- 1), Fin (- 1)]\<rparr>"

section \<open>Properties of the numbers\<close>

lemma round_to_double_not_NaN: "round_to_double q \<noteq> NaN"
  by (simp add: round_to_double_def Let_def)

lemma bit_length_le: "0 \<le> n \<Longrightarrow> n < 2 ^ k \<Longrightarrow> bit_length n \<le> int k"
proof (induction k arbitrary: n)
  case 0
  then have "n = 0" by simp
  then show ?case by (simp add: bit_length.simps)
next
  case (Suc k)
  show ?case
  proof (cases "n \<le> 0")
    case True
    then show ?thesis by (simp add: bit_length.simps)
  next
    case False
    have "n div 2 < 2 ^ k" using Suc.prems by auto
    moreover have "0 \<le> n div 2" using Suc.prems by auto
    ultimately have "bit_length (n div 2) \<le> int k" by (rule Suc.IH [rotated])
    then show ?thesis using False by (subst bit_length.simps) simp
  qed
qed

lemma float_of_int_returns:
  assumes "0 \<le> n" "n < 2 ^ 1023"
  shows "\<exists>v. float_of_int n = Inr (Fin v)"
proof (cases "n = 0")
  case True
  then show ?thesis by (simp add: float_of_int_def round_to_double_def)
next
  case False
  with assms have pos: "1 \<le> n" by simp
  have "bit_length n \<le> 1023"
    using bit_length_le [OF assms(1), of 1023] assms(2) by simp
  then have "ilog2 (of_int n) \<le> 1022"
    using pos by (simp add: ilog2_def)
  then have "\<not> 971 < max (ilog2 \<bar>of_int n\<bar> - 52) (- 1074)"
    and "max (ilog2 \<bar>of_int n\<bar> - 52) (- 1074) \<noteq> 971"
    using pos by auto
  then show ?thesis
    using False by (simp add: float_of_int_def round_to_double_def Let_def)
qed

lemma point_01: "round_to_double (1 / 100) = Fin (5764607523034235 / 576460752303423488)"
  by code_simp

lemma float_add_not_NaN: "y \<noteq> NaN \<Longrightarrow> float_add (Fin a) y \<noteq> NaN"
  by (cases y) (simp_all add: round_to_double_not_NaN)

lemma float_order:
  "x \<noteq> NaN \<Longrightarrow> y \<noteq> NaN \<Longrightarrow> \<not> float_gt x y \<Longrightarrow> float_lt y z \<Longrightarrow> float_lt x z"
  "float_lt x y \<Longrightarrow> float_lt y z \<Longrightarrow> float_lt x z"
  "float_lt x y \<Longrightarrow> \<not> float_gt x y"
  "float_gt x y \<Longrightarrow> float_lt y x"
  "\<not> float_gt x x"
  "\<not> float_gt x y \<Longrightarrow> float_lt y z \<Longrightarrow> \<not> float_gt x z"
  by (auto simp: float_gt_def float_lt_def)

lemma py_sorted_permutes:
  "py_sorted key reverse xs = Inr ys \<Longrightarrow> mset ys = mset xs \<and> set ys = set xs"
  by (auto simp: py_sorted_def split: if_splits)

section \<open>Properties of the feature builder\<close>

subsection \<open>Chunking\<close>

text \<open>
  With a positive budget and a positive stride the loop returns from every state it can
  reach. The spans \<open>acc\<close> collected so far cover the positions before \<open>s\<close>, have the
  length of the budget, end before the end of the document and start
  \<open>min budget stride\<close> apart; the result adds spans to them, the first at \<open>s\<close>, covers the
  document, and only its last span reaches the end of the document.
\<close>

lemma doc_spans_loop_result:
  assumes "0 < budget" "0 < stride"
  shows "0 \<le> s \<Longrightarrow> s < n \<Longrightarrow>
     (\<forall>p. 0 \<le> p \<and> p < s \<longrightarrow> (\<exists>d\<in>set acc. span_contains d p)) \<Longrightarrow>
     (\<forall>d\<in>set acc. 0 \<le> start d \<and> span_length d = budget \<and> start d + span_length d < n) \<Longrightarrow>
     (\<forall>i. Suc i < length acc \<longrightarrow> start (acc ! Suc i) = start (acc ! i) + min budget stride) \<Longrightarrow>
     (acc \<noteq> [] \<longrightarrow> s = start (last acc) + min budget stride) \<Longrightarrow>
     \<exists>rest. doc_spans_loop n budget stride s acc = Some (acc @ rest) \<and> rest \<noteq> [] \<and>
        start (hd rest) = s \<and>
        (\<forall>p. 0 \<le> p \<and> p < n \<longrightarrow> (\<exists>d\<in>set (acc @ rest). span_contains d p)) \<and>
        (\<forall>d\<in>set (acc @ rest). 0 \<le> start d \<and> 0 < span_length d \<and> span_length d \<le> budget \<and>
           start d + span_length d \<le> n) \<and>
        (\<forall>d\<in>set (butlast (acc @ rest)). span_length d = budget \<and> start d + span_length d < n) \<and>
        (\<forall>i. Suc i < length (acc @ rest) \<longrightarrow>
           start ((acc @ rest) ! Suc i) = start ((acc @ rest) ! i) + min budget stride) \<and>
        start (last (acc @ rest)) + span_length (last (acc @ rest)) = n"
proof (induction "nat (n - s)" arbitrary: s acc rule: less_induct)
  case less
  define len where "len = (if n - s > budget then budget else n - s)"
  define new where "new = \<lparr>start = s, span_length = len\<rparr>"
  define acc' where "acc' = acc @ [new]"
  have len_pos: "0 < len" and len_le: "len \<le> budget" "s + len \<le> n"
    using less.prems assms by (auto simp: len_def)
  have new_simps: "start new = s" "span_length new = len"
    by (simp_all add: new_def)
  have chain: "\<forall>i. Suc i < length acc' \<longrightarrow> start (acc' ! Suc i) = start (acc' ! i) + min budget stride"
  proof (intro allI impI)
    fix i assume i: "Suc i < length acc'"
    show "start (acc' ! Suc i) = start (acc' ! i) + min budget stride"
    proof (cases "Suc i < length acc")
      case True
      then show ?thesis using less.prems(5) by (simp add: acc'_def nth_append)
    next
      case False
      with i have eq: "Suc i = length acc" by (simp add: acc'_def)
      then have "acc \<noteq> []" by auto
      moreover have "last acc = acc ! i"
        using eq [symmetric] \<open>acc \<noteq> []\<close> by (simp add: last_conv_nth)
      ultimately show ?thesis
        using less.prems(6) eq by (simp add: acc'_def nth_append new_simps)
    qed
  qed
  have ok: "\<forall>d\<in>set acc'. 0 \<le> start d \<and> 0 < span_length d \<and> span_length d \<le> budget \<and> start d + span_length d \<le> n"
    using less.prems(4) less.prems(1) len_pos len_le assms(1) by (auto simp: acc'_def new_simps)
  show ?case
  proof (cases "s + len = n")
    case True
    have cov: "\<forall>p. 0 \<le> p \<and> p < n \<longrightarrow> (\<exists>d\<in>set acc'. span_contains d p)"
    proof (intro allI impI)
      fix p assume p: "0 \<le> p \<and> p < n"
      show "\<exists>d\<in>set acc'. span_contains d p"
      proof (cases "p < s")
        case True
        then show ?thesis using less.prems(3) p by (auto simp: acc'_def)
      next
        case False
        then have "span_contains new p"
          using p \<open>s + len = n\<close> by (simp add: span_contains_def new_simps)
        then show ?thesis by (auto simp: acc'_def)
      qed
    qed
    have run: "doc_spans_loop n budget stride s acc = Some (acc @ [new])"
      using True less.prems(2)
      by (subst doc_spans_loop.simps) (simp add: Let_def new_def len_def)
    have fin: "start (last (acc @ [new])) + span_length (last (acc @ [new])) = n"
      using True by (simp add: new_simps)
    have early: "\<forall>d\<in>set (butlast (acc @ [new])). span_length d = budget \<and> start d + span_length d < n"
      using less.prems(4) by auto
    have "doc_spans_loop n budget stride s acc = Some (acc @ [new]) \<and> [new] \<noteq> [] \<and>
        start (hd [new]) = s \<and>
        (\<forall>p. 0 \<le> p \<and> p < n \<longrightarrow> (\<exists>d\<in>set (acc @ [new]). span_contains d p)) \<and>
        (\<forall>d\<in>set (acc @ [new]). 0 \<le> start d \<and> 0 < span_length d \<and> span_length d \<le> budget \<and>
           start d + span_length d \<le> n) \<and>
        (\<forall>d\<in>set (butlast (acc @ [new])). span_length d = budget \<and> start d + span_length d < n) \<and>
        (\<forall>i. Suc i < length (acc @ [new]) \<longrightarrow>
           start ((acc @ [new]) ! Suc i) = start ((acc @ [new]) ! i) + min budget stride) \<and>
        start (last (acc @ [new])) + span_length (last (acc @ [new])) = n"
      using run cov ok early chain fin unfolding acc'_def
      by (simp only: new_simps list.sel not_Cons_self2 simp_thms)
    then show ?thesis by (rule exI)
  next
    case False
    define s' where "s' = s + min len stride"
    have full: "len = budget" "s + budget < n"
      using False len_le by (auto simp: len_def split: if_splits)
    have s': "s < s'" "s' \<le> s + len" "s' < n"
      using len_pos assms(2) len_le False by (auto simp: s'_def)
    have cov: "\<forall>p. 0 \<le> p \<and> p < s' \<longrightarrow> (\<exists>d\<in>set acc'. span_contains d p)"
    proof (intro allI impI)
      fix p assume p: "0 \<le> p \<and> p < s'"
      show "\<exists>d\<in>set acc'. span_contains d p"
      proof (cases "p < s")
        case True
        then show ?thesis using less.prems(3) p by (auto simp: acc'_def)
      next
        case False
        then have "span_contains new p"
          using p s'(2) by (auto simp: span_contains_def new_simps)
        then show ?thesis by (auto simp: acc'_def)
      qed
    qed
    have inv: "\<forall>d\<in>set acc'. 0 \<le> start d \<and> span_length d = budget \<and> start d + span_length d < n"
      using less.prems(4) less.prems(1) full by (auto simp: acc'_def new_simps)
    have nxt: "acc' \<noteq> [] \<longrightarrow> s' = start (last acc') + min budget stride"
      using full by (simp add: acc'_def new_simps s'_def)
    have step: "doc_spans_loop n budget stride s acc = doc_spans_loop n budget stride s' acc'"
      using False less.prems(2)
      by (subst doc_spans_loop.simps) (simp add: Let_def new_def len_def s'_def acc'_def)
    have "nat (n - s') < nat (n - s)"
      using s' by linarith
    from less.hyps [OF this _ s'(3) cov inv chain nxt] less.prems(1) s'(1)
    obtain rest where rest:
      "doc_spans_loop n budget stride s' acc' = Some (acc' @ rest)" "rest \<noteq> []"
      "\<forall>p. 0 \<le> p \<and> p < n \<longrightarrow> (\<exists>d\<in>set (acc' @ rest). span_contains d p)"
      "\<forall>d\<in>set (acc' @ rest). 0 \<le> start d \<and> 0 < span_length d \<and> span_length d \<le> budget \<and>
           start d + span_length d \<le> n"
      "\<forall>d\<in>set (butlast (acc' @ rest)). span_length d = budget \<and> start d + span_length d < n"
      "\<forall>i. Suc i < length (acc' @ rest) \<longrightarrow>
           start ((acc' @ rest) ! Suc i) = start ((acc' @ rest) ! i) + min budget stride"
      "start (last (acc' @ rest)) + span_length (last (acc' @ rest)) = n"
      by force
    have app: "acc' @ rest = acc @ (new # rest)" by (simp add: acc'_def)
    have "doc_spans_loop n budget stride s acc = Some (acc @ (new # rest)) \<and> new # rest \<noteq> [] \<and>
        start (hd (new # rest)) = s \<and>
        (\<forall>p. 0 \<le> p \<and> p < n \<longrightarrow> (\<exists>d\<in>set (acc @ (new # rest)). span_contains d p)) \<and>
        (\<forall>d\<in>set (acc @ (new # rest)). 0 \<le> start d \<and> 0 < span_length d \<and> span_length d \<le> budget \<and>
           start d + span_length d \<le> n) \<and>
        (\<forall>d\<in>set (butlast (acc @ (new # rest))). span_length d = budget \<and> start d + span_length d < n) \<and>
        (\<forall>i. Suc i < length (acc @ (new # rest)) \<longrightarrow>
           start ((acc @ (new # rest)) ! Suc i) = start ((acc @ (new # rest)) ! i) + min budget stride) \<and>
        start (last (acc @ (new # rest))) + span_length (last (acc @ (new # rest))) = n"
      using rest unfolding step app
      by (simp only: new_simps list.sel list.distinct simp_thms)
    then show ?thesis by (rule exI)
  qed
qed

text \<open>With a stride of 0 a document of two tokens and a budget of one never leaves the loop.\<close>

lemma doc_spans_loop_stuck:
  "doc_spans_loop n b st s acc = Some y \<Longrightarrow> \<not> (n = 2 \<and> b = 1 \<and> st = 0 \<and> s = 0)"
proof (rule doc_spans_loop.raw_induct
        [where P = "\<lambda>n b st s acc y. \<not> (n = 2 \<and> b = 1 \<and> st = 0 \<and> s = 0)"], goal_cases)
  case (1 f n b st s acc y)
  show ?case
  proof
    assume "n = 2 \<and> b = 1 \<and> st = 0 \<and> s = 0"
    with 1 have "f 2 1 0 0 (acc @ [\<lparr>start = 0, span_length = 1\<rparr>]) = Some y"
      by (simp add: Let_def)
    with 1 show False by blast
  qed
qed

text \<open>
  Claim C3, as amended. For a non-empty sub-tokenized document, a positive document budget
  \<open>max_seq_length - len(query_tokens) - 3\<close> and a positive \<open>doc_stride\<close>, the chunking
  loop terminates; every document sub-token index is covered by at least one span; no
  span is longer than the budget or extends beyond the document; the last span ends
  exactly at the last document sub-token; and no span starts past the point where it
  would extend beyond the document: every span before the last has the full length of
  the budget and ends before the end of the document, so the first span that reaches the
  end is the last one. The first span starts at 0 and every other span
  \<open>min(budget, doc_stride)\<close> after the span before it.
\<close>

theorem make_doc_spans_covers_document:
  assumes "all_doc_tokens \<noteq> []"
    and "0 < max_len - int (length query_tokens) - 3"
    and "0 < stride"
  shows "\<exists>doc_spans.
     make_doc_spans all_doc_tokens query_tokens max_len stride = Some doc_spans \<and>
     doc_spans \<noteq> [] \<and>
     (\<forall>p. 0 \<le> p \<and> p < int (length all_doc_tokens) \<longrightarrow> (\<exists>d\<in>set doc_spans. span_contains d p)) \<and>
     (\<forall>d\<in>set doc_spans.
        0 \<le> start d \<and> 0 < span_length d \<and>
        span_length d \<le> max_len - int (length query_tokens) - 3 \<and>
        start d + span_length d \<le> int (length all_doc_tokens)) \<and>
     start (last doc_spans) + span_length (last doc_spans) = int (length all_doc_tokens) \<and>
     (\<forall>d\<in>set (butlast doc_spans).
        span_length d = max_len - int (length query_tokens) - 3 \<and>
        start d + span_length d < int (length all_doc_tokens)) \<and>
     start (hd doc_spans) = 0 \<and>
     (\<forall>i. Suc i < length doc_spans \<longrightarrow>
        start (doc_spans ! Suc i) =
          start (doc_spans ! i) + min (max_len - int (length query_tokens) - 3) stride)"
proof -
  have n: "0 < int (length all_doc_tokens)"
    using assms(1) by simp
  have "\<exists>rest. doc_spans_loop (int (length all_doc_tokens)) (max_len - int (length query_tokens) - 3)
                  stride 0 [] = Some ([] @ rest) \<and> rest \<noteq> [] \<and> start (hd rest) = 0 \<and>
        (\<forall>p. 0 \<le> p \<and> p < int (length all_doc_tokens) \<longrightarrow> (\<exists>d\<in>set ([] @ rest). span_contains d p)) \<and>
        (\<forall>d\<in>set ([] @ rest). 0 \<le> start d \<and> 0 < span_length d \<and>
           span_length d \<le> max_len - int (length query_tokens) - 3 \<and>
           start d + span_length d \<le> int (length all_doc_tokens)) \<and>
        (\<forall>d\<in>set (butlast ([] @ rest)). span_length d = max_len - int (length query_tokens) - 3 \<and>
           start d + span_length d < int (length all_doc_tokens)) \<and>
        (\<forall>i. Suc i < length ([] @ rest) \<longrightarrow>
           start (([] @ rest) ! Suc i) =
             start (([] @ rest) ! i) + min (max_len - int (length query_tokens) - 3) stride) \<and>
        start (last ([] @ rest)) + span_length (last ([] @ rest)) = int (length all_doc_tokens)"
    by (rule doc_spans_loop_result [OF assms(2) assms(3) order_refl n]) simp_all
  then show ?thesis
    unfolding make_doc_spans_def Let_def by auto
qed

theorem make_doc_spans_covers_document_witness:
  "\<exists>doc_spans.
     make_doc_spans [''a'', ''b'', ''c'', ''d'', ''e''] [''q''] 7 1 = Some doc_spans \<and>
     doc_spans \<noteq> [] \<and>
     (\<forall>p. 0 \<le> p \<and> p < 5 \<longrightarrow> (\<exists>d\<in>set doc_spans. span_contains d p)) \<and>
     (\<forall>d\<in>set doc_spans. 0 \<le> start d \<and> 0 < span_length d \<and> span_length d \<le> 3 \<and>
        start d + span_length d \<le> 5) \<and>
     start (last doc_spans) + span_length (last doc_spans) = 5 \<and>
     (\<forall>d\<in>set (butlast doc_spans). span_length d = 3 \<and> start d + span_length d < 5) \<and>
     start (hd doc_spans) = 0 \<and>
     (\<forall>i. Suc i < length doc_spans \<longrightarrow> start (doc_spans ! Suc i) = start (doc_spans ! i) + 1)"
  using make_doc_spans_covers_document [of "[''a'', ''b'', ''c'', ''d'', ''e'']" 7 "[''q'']" 1]
  by simp

text \<open>
  Claim C3 as stated does not hold: the budget is positive and the document non-empty,
  but with \<open>doc_stride = 0\<close> the loop appends the same span for ever.
\<close>

theorem make_doc_spans_zero_stride_counterexample:
  "[''x'', ''y''] \<noteq> [] \<and> 0 < (4::int) - int (length ([]::string list)) - 3 \<and>
   make_doc_spans [''x'', ''y''] [] 4 0 = None"
proof -
  have "doc_spans_loop 2 1 0 0 [] = None"
    using doc_spans_loop_stuck [of 2 1 0 0 "[]"] by (cases "doc_spans_loop 2 1 0 0 []") auto
  then show ?thesis
    by (simp add: make_doc_spans_def)
qed

subsection \<open>Max-context ownership\<close>

lemma context_score_returns:
  assumes "span_contains d p" "span_length d < 2 ^ 1023"
  shows "\<exists>s. context_score d p = Inr s \<and> s \<noteq> NaN"
proof -
  have len: "0 \<le> span_length d"
    using assms(1) by (simp add: span_contains_def)
  let ?m = "min (p - start d) (start d + span_length d - 1 - p)"
  have m: "0 \<le> ?m" "?m < 2 ^ 1023"
    using assms by (auto simp: span_contains_def)
  from float_of_int_returns [OF len assms(2)] obtain l where l: "float_of_int (span_length d) = Inr (Fin l)"
    by blast
  from float_of_int_returns [OF m] obtain c where c: "float_of_int ?m = Inr (Fin c)"
    by blast
  have "float_mul (round_to_double (1 / 100)) (Fin l) \<noteq> NaN"
    by (simp add: point_01 round_to_double_not_NaN)
  then have "float_add (Fin c) (float_mul (round_to_double (1 / 100)) (Fin l)) \<noteq> NaN"
    by (rule float_add_not_NaN)
  then show ?thesis
    using l c by (simp add: context_score_def Let_def)
qed

lemma scan_step:
  "max_context_scan (d # ds) i p best =
     (if span_contains d p
      then (case context_score d p of
              Inl e \<Rightarrow> Inl e
            | Inr sc \<Rightarrow>
                max_context_scan ds (Suc i) p
                  (if (case best of None \<Rightarrow> True | Some (bs, bi) \<Rightarrow> float_gt sc bs)
                   then Some (sc, i) else best))
      else max_context_scan ds (Suc i) p best)"
  by (auto simp: span_contains_def Let_def split: sum.splits)

lemma scan_result:
  assumes "\<forall>d\<in>set ds. span_contains d p \<longrightarrow> context_score d p = Inr (f d) \<and> f d \<noteq> NaN"
    and "case best of None \<Rightarrow> True | Some (bs, bi) \<Rightarrow> bs \<noteq> NaN"
  shows "\<exists>r. max_context_scan ds i p best = Inr r \<and>
     (case r of
        None \<Rightarrow> best = None \<and> (\<forall>d\<in>set ds. \<not> span_contains d p)
      | Some (s, b) \<Rightarrow>
          (best = Some (s, b) \<and>
             (\<forall>j<length ds. span_contains (ds ! j) p \<longrightarrow> \<not> float_gt (f (ds ! j)) s))
          \<or> (\<exists>k<length ds. b = i + k \<and> span_contains (ds ! k) p \<and> s = f (ds ! k) \<and>
               (\<forall>j<length ds. span_contains (ds ! j) p \<longrightarrow> \<not> float_gt (f (ds ! j)) s) \<and>
               (\<forall>j<k. span_contains (ds ! j) p \<longrightarrow> float_lt (f (ds ! j)) s) \<and>
               (case best of None \<Rightarrow> True | Some (bs, bi) \<Rightarrow> float_lt bs s)))"
  using assms
proof (induction ds arbitrary: i best)
  case Nil
  then show ?case by (auto split: option.splits)
next
  case (Cons d ds)
  define take where
    "take = (span_contains d p \<and> (case best of None \<Rightarrow> True | Some (bs, bi) \<Rightarrow> float_gt (f d) bs))"
  define best' where "best' = (if take then Some (f d, i) else best)"
  have sc: "\<forall>d\<in>set ds. span_contains d p \<longrightarrow> context_score d p = Inr (f d) \<and> f d \<noteq> NaN"
    using Cons.prems(1) by simp
  have fd: "span_contains d p \<Longrightarrow> context_score d p = Inr (f d) \<and> f d \<noteq> NaN"
    using Cons.prems(1) by simp
  have nan': "case best' of None \<Rightarrow> True | Some (bs, bi) \<Rightarrow> bs \<noteq> NaN"
    using Cons.prems(2) fd by (auto simp: best'_def take_def split: option.splits)
  have step: "max_context_scan (d # ds) i p best = max_context_scan ds (Suc i) p best'"
  proof (cases "span_contains d p")
    case True
    with fd have "context_score d p = Inr (f d)" by simp
    then show ?thesis
      using True by (simp add: scan_step best'_def take_def del: max_context_scan.simps(2))
  next
    case False
    then show ?thesis
      by (simp add: scan_step best'_def take_def del: max_context_scan.simps(2))
  qed
  from Cons.IH [OF sc nan', of "Suc i"] obtain r where
    run: "max_context_scan ds (Suc i) p best' = Inr r"
    and res: "case r of
        None \<Rightarrow> best' = None \<and> (\<forall>d\<in>set ds. \<not> span_contains d p)
      | Some (s, b) \<Rightarrow>
          (best' = Some (s, b) \<and>
             (\<forall>j<length ds. span_contains (ds ! j) p \<longrightarrow> \<not> float_gt (f (ds ! j)) s))
          \<or> (\<exists>k<length ds. b = Suc i + k \<and> span_contains (ds ! k) p \<and> s = f (ds ! k) \<and>
               (\<forall>j<length ds. span_contains (ds ! j) p \<longrightarrow> \<not> float_gt (f (ds ! j)) s) \<and>
               (\<forall>j<k. span_contains (ds ! j) p \<longrightarrow> float_lt (f (ds ! j)) s) \<and>
               (case best' of None \<Rightarrow> True | Some (bs, bi) \<Rightarrow> float_lt bs s))"
    by blast
  have goal: "case r of
        None \<Rightarrow> best = None \<and> (\<forall>d\<in>set (d # ds). \<not> span_contains d p)
      | Some (s, b) \<Rightarrow>
          (best = Some (s, b) \<and>
             (\<forall>j<length (d # ds). span_contains ((d # ds) ! j) p \<longrightarrow> \<not> float_gt (f ((d # ds) ! j)) s))
          \<or> (\<exists>k<length (d # ds). b = i + k \<and> span_contains ((d # ds) ! k) p \<and> s = f ((d # ds) ! k) \<and>
               (\<forall>j<length (d # ds). span_contains ((d # ds) ! j) p \<longrightarrow> \<not> float_gt (f ((d # ds) ! j)) s) \<and>
               (\<forall>j<k. span_contains ((d # ds) ! j) p \<longrightarrow> float_lt (f ((d # ds) ! j)) s) \<and>
               (case best of None \<Rightarrow> True | Some (bs, bi) \<Rightarrow> float_lt bs s))"
  proof (cases r)
    case None
    with res have "best' = None" "\<forall>d\<in>set ds. \<not> span_contains d p" by auto
    then show ?thesis
      using None by (auto simp: best'_def take_def split: if_splits)
  next
    case (Some sb)
    obtain s b where sb: "sb = (s, b)" by (cases sb)
    from res Some sb consider
      (kept) "best' = Some (s, b)"
        "\<forall>j<length ds. span_contains (ds ! j) p \<longrightarrow> \<not> float_gt (f (ds ! j)) s"
      | (later) k where "k < length ds" "b = Suc i + k" "span_contains (ds ! k) p" "s = f (ds ! k)"
        "\<forall>j<length ds. span_contains (ds ! j) p \<longrightarrow> \<not> float_gt (f (ds ! j)) s"
        "\<forall>j<k. span_contains (ds ! j) p \<longrightarrow> float_lt (f (ds ! j)) s"
        "case best' of None \<Rightarrow> True | Some (bs, bi) \<Rightarrow> float_lt bs s"
      by auto
    then have "(best = Some (s, b) \<and>
             (\<forall>j<length (d # ds). span_contains ((d # ds) ! j) p \<longrightarrow> \<not> float_gt (f ((d # ds) ! j)) s))
          \<or> (\<exists>k<length (d # ds). b = i + k \<and> span_contains ((d # ds) ! k) p \<and> s = f ((d # ds) ! k) \<and>
               (\<forall>j<length (d # ds). span_contains ((d # ds) ! j) p \<longrightarrow> \<not> float_gt (f ((d # ds) ! j)) s) \<and>
               (\<forall>j<k. span_contains ((d # ds) ! j) p \<longrightarrow> float_lt (f ((d # ds) ! j)) s) \<and>
               (case best of None \<Rightarrow> True | Some (bs, bi) \<Rightarrow> float_lt bs s))"
    proof cases
      case kept
      show ?thesis
      proof (cases take)
        case True
        with kept(1) have eq: "s = f d" "b = i" by (auto simp: best'_def)
        have "\<forall>j<length (d # ds). span_contains ((d # ds) ! j) p \<longrightarrow> \<not> float_gt (f ((d # ds) ! j)) s"
          using kept(2) eq by (auto simp: nth_Cons float_order(5) split: nat.splits)
        moreover have "case best of None \<Rightarrow> True | Some (bs, bi) \<Rightarrow> float_lt bs s"
          using True eq by (auto simp: take_def float_order(4) split: option.splits)
        moreover have "span_contains d p" using True by (simp add: take_def)
        ultimately show ?thesis using eq
          by (intro disjI2 exI [of _ 0]) simp
      next
        case False
        with kept(1) have b: "best = Some (s, b)" by (simp add: best'_def)
        have "span_contains d p \<Longrightarrow> \<not> float_gt (f d) s"
          using False b by (simp add: take_def)
        then have "\<forall>j<length (d # ds). span_contains ((d # ds) ! j) p \<longrightarrow> \<not> float_gt (f ((d # ds) ! j)) s"
          using kept(2) by (auto simp: nth_Cons split: nat.splits)
        then show ?thesis using b by blast
      qed
    next
      case later
      have s_nan: "s \<noteq> NaN"
        using later(3,4) sc later(1) by (metis nth_mem)
      have d: "span_contains d p \<Longrightarrow> float_lt (f d) s"
      proof -
        assume c: "span_contains d p"
        show "float_lt (f d) s"
        proof (cases take)
          case True
          then show ?thesis using later(7) by (simp add: best'_def)
        next
          case False
          with c obtain bs bi where best: "best = Some (bs, bi)" "\<not> float_gt (f d) bs"
            by (auto simp: take_def split: option.splits)
          have "float_lt bs s"
            using later(7) False best by (simp add: best'_def)
          moreover have "bs \<noteq> NaN" using Cons.prems(2) best by simp
          moreover have "f d \<noteq> NaN" using fd c by simp
          ultimately show ?thesis using best(2) float_order(1) by blast
        qed
      qed
      have best: "case best of None \<Rightarrow> True | Some (bs, bi) \<Rightarrow> float_lt bs s"
      proof (cases take)
        case True
        then show ?thesis
          using later(7) by (auto simp: best'_def take_def split: option.splits
              intro: float_order(2) float_order(4))
      next
        case False
        then show ?thesis using later(7) by (simp add: best'_def)
      qed
      have "\<forall>j<length (d # ds). span_contains ((d # ds) ! j) p \<longrightarrow> \<not> float_gt (f ((d # ds) ! j)) s"
        using later(5) d by (auto simp: nth_Cons float_order(3) split: nat.splits)
      moreover have "\<forall>j<Suc k. span_contains ((d # ds) ! j) p \<longrightarrow> float_lt (f ((d # ds) ! j)) s"
        using later(6) d by (auto simp: nth_Cons split: nat.splits)
      ultimately show ?thesis using later(1-4) best
        by (intro disjI2 exI [of _ "Suc k"]) simp
    qed
    then show ?thesis using Some sb by simp
  qed
  show ?case
    unfolding step using run goal by blast
qed

text \<open>
  Claim C1. For every list of DocSpans (those of the chunking loop among them) and every
  position contained in at least one span, \<^verbatim>\<open>_check_is_max_context\<close> is true for exactly
  one span index: the first span, in list order, among the spans containing the position
  that maximizes \<open>min(left, right) + 0.01 * length\<close>. The comparison is strict, so an
  earlier span keeps the ownership against a later one with an equal score. The score
  is the float the expression has in the code. The lengths are below \<open>2 ^ 1023\<close>, so
  that they have a float.
\<close>

theorem check_is_max_context_unique_owner:
  assumes "\<exists>d\<in>set doc_spans. span_contains d position"
    and "\<forall>d\<in>set doc_spans. span_length d < 2 ^ 1023"
  shows "\<exists>b. first_best doc_spans position b \<and>
             (\<forall>cur_span_index.
                check_is_max_context doc_spans cur_span_index position = Inr (cur_span_index = b))"
proof -
  have "\<forall>d\<in>set doc_spans. \<exists>s. span_contains d position \<longrightarrow> context_score d position = Inr s \<and> s \<noteq> NaN"
    using assms(2) context_score_returns by blast
  then obtain f where f:
    "\<forall>d\<in>set doc_spans. span_contains d position \<longrightarrow> context_score d position = Inr (f d) \<and> f d \<noteq> NaN"
    by (rule bchoice [THEN exE])
  have "case (None :: (py_float \<times> nat) option) of None \<Rightarrow> True | Some (bs, bi) \<Rightarrow> bs \<noteq> NaN"
    by simp
  from scan_result [OF f this, of 0] obtain r where
    run: "max_context_scan doc_spans 0 position None = Inr r"
    and raw: "case r of
        None \<Rightarrow> None = (None :: (py_float \<times> nat) option) \<and>
          (\<forall>d\<in>set doc_spans. \<not> span_contains d position)
      | Some (s, b) \<Rightarrow>
          (None = Some (s, b) \<and>
             (\<forall>j<length doc_spans. span_contains (doc_spans ! j) position \<longrightarrow>
                \<not> float_gt (f (doc_spans ! j)) s))
          \<or> (\<exists>k<length doc_spans. b = 0 + k \<and> span_contains (doc_spans ! k) position \<and>
               s = f (doc_spans ! k) \<and>
               (\<forall>j<length doc_spans. span_contains (doc_spans ! j) position \<longrightarrow>
                  \<not> float_gt (f (doc_spans ! j)) s) \<and>
               (\<forall>j<k. span_contains (doc_spans ! j) position \<longrightarrow> float_lt (f (doc_spans ! j)) s) \<and>
               (case (None :: (py_float \<times> nat) option) of None \<Rightarrow> True
                | Some (bs, bi) \<Rightarrow> float_lt bs s))"
    by blast
  have res: "case r of
        None \<Rightarrow> (\<forall>d\<in>set doc_spans. \<not> span_contains d position)
      | Some (s, b) \<Rightarrow>
          (\<exists>k<length doc_spans. b = k \<and> span_contains (doc_spans ! k) position \<and> s = f (doc_spans ! k) \<and>
               (\<forall>j<length doc_spans. span_contains (doc_spans ! j) position \<longrightarrow> \<not> float_gt (f (doc_spans ! j)) s) \<and>
               (\<forall>j<k. span_contains (doc_spans ! j) position \<longrightarrow> float_lt (f (doc_spans ! j)) s))"
    using raw by (auto split: option.splits)
  from res assms(1) obtain s b where r: "r = Some (s, b)"
    by (cases r) auto
  with res have b: "b < length doc_spans" "span_contains (doc_spans ! b) position"
    "s = f (doc_spans ! b)"
    "\<forall>j<length doc_spans. span_contains (doc_spans ! j) position \<longrightarrow> \<not> float_gt (f (doc_spans ! j)) s"
    "\<forall>j<b. span_contains (doc_spans ! j) position \<longrightarrow> float_lt (f (doc_spans ! j)) s"
    by auto
  have sc: "\<And>j. j < length doc_spans \<Longrightarrow> span_contains (doc_spans ! j) position \<Longrightarrow>
              context_score (doc_spans ! j) position = Inr (f (doc_spans ! j))"
    using f by simp
  have "first_best doc_spans position b"
    unfolding first_best_def
  proof (intro conjI exI [of _ s])
    show "b < length doc_spans" by (rule b(1))
    show "span_contains (doc_spans ! b) position" by (rule b(2))
    show "context_score (doc_spans ! b) position = Inr s"
      using sc [OF b(1) b(2)] b(3) by simp
    show "\<forall>j<length doc_spans. span_contains (doc_spans ! j) position \<longrightarrow>
            (\<exists>sj. context_score (doc_spans ! j) position = Inr sj \<and> \<not> float_gt sj s)"
      using sc b(4) by blast
    show "\<forall>j<b. span_contains (doc_spans ! j) position \<longrightarrow>
            (\<exists>sj. context_score (doc_spans ! j) position = Inr sj \<and> float_lt sj s)"
      using sc b(5) b(1) by (meson less_trans)
  qed
  moreover have "\<forall>c. check_is_max_context doc_spans c position = Inr (c = b)"
    using run r by (auto simp: check_is_max_context_def)
  ultimately show ?thesis by blast
qed

text \<open>
  The chunking of a document of 119 tokens with a budget of 118 and a stride of 101, and
  position 115: the exact values of the two scores are both 3.18, the floats are
  3.1799999999999997 for the first span and 3.18 for the second, which owns the position.
\<close>

theorem check_is_max_context_unique_owner_witness:
  "make_doc_spans (replicate 119 ''t'') [] 121 101 =
     Some [\<lparr>start = 0, span_length = 118\<rparr>, \<lparr>start = 101, span_length = 18\<rparr>] \<and>
   (\<exists>b. first_best [\<lparr>start = 0, span_length = 118\<rparr>, \<lparr>start = 101, span_length = 18\<rparr>] 115 b \<and>
        (\<forall>c. check_is_max_context
                [\<lparr>start = 0, span_length = 118\<rparr>, \<lparr>start = 101, span_length = 18\<rparr>] c 115
              = Inr (c = b))) \<and>
   context_score \<lparr>start = 0, span_length = 118\<rparr> 115 =
     Inr (Fin (447545212969943 / 140737488355328)) \<and>
   context_score \<lparr>start = 101, span_length = 18\<rparr> 115 =
     Inr (Fin (7160723407519089 / 2251799813685248)) \<and>
   check_is_max_context [\<lparr>start = 0, span_length = 118\<rparr>, \<lparr>start = 101, span_length = 18\<rparr>] 0 115
     = Inr False \<and>
   check_is_max_context [\<lparr>start = 0, span_length = 118\<rparr>, \<lparr>start = 101, span_length = 18\<rparr>] 1 115
     = Inr True"
proof -
  let ?ds = "[\<lparr>start = 0, span_length = 118\<rparr>, \<lparr>start = 101, span_length = 18\<rparr>]"
  have spans: "make_doc_spans (replicate 119 ''t'') [] 121 101 = Some ?ds"
    by code_simp
  have inside: "\<exists>d\<in>set ?ds. span_contains d 115"
    by (simp add: span_contains_def)
  have sizes: "\<forall>d\<in>set ?ds. span_length d < 2 ^ 1023"
    by simp
  note spans
  moreover from check_is_max_context_unique_owner [OF inside sizes]
  have "\<exists>b. first_best ?ds 115 b \<and> (\<forall>c. check_is_max_context ?ds c 115 = Inr (c = b))" .
  moreover have "context_score \<lparr>start = 0, span_length = 118\<rparr> 115 =
      Inr (Fin (447545212969943 / 140737488355328))"
    by code_simp
  moreover have "context_score \<lparr>start = 101, span_length = 18\<rparr> 115 =
      Inr (Fin (7160723407519089 / 2251799813685248))"
    by code_simp
  moreover have "check_is_max_context ?ds 0 115 = Inr False"
    by code_simp
  moreover have "check_is_max_context ?ds 1 115 = Inr True"
    by code_simp
  ultimately show ?thesis by blast
qed

subsection \<open>Padding\<close>

lemma pad_loop_grows:
  "pad_loop args (ids, m, sg, pm) = (ids', m', sg', pm') \<Longrightarrow>
     \<exists>k. int k = max 0 (max_seq_length args - int (length ids)) \<and>
         length ids' = length ids + k \<and> length m' = length m + k \<and>
         length sg' = length sg + k \<and> length pm' = length pm + k"
proof (induction args "(ids, m, sg, pm)" arbitrary: ids m sg pm rule: pad_loop.induct)
  case (1 args ids m sg pm)
  show ?case
  proof (cases "int (length ids) < max_seq_length args")
    case True
    with "1.prems" have run: "pad_loop args
        (ids @ [pad_token args], m @ [if mask_padding_with_zero args then 0 else 1],
         sg @ [pad_token_segment_id args], pm @ [1]) = (ids', m', sg', pm')"
      by simp
    from "1.hyps" [OF True run] obtain k where k:
      "int k = max 0 (max_seq_length args - int (length (ids @ [pad_token args])))"
      "length ids' = length ids + 1 + k" "length m' = length m + 1 + k"
      "length sg' = length sg + 1 + k" "length pm' = length pm + 1 + k"
      by auto
    have "int (Suc k) = max 0 (max_seq_length args - int (length ids))"
      using k(1) True by simp
    then show ?thesis using k(2-5) by (intro exI [of _ "Suc k"]) simp
  next
    case False
    with "1.prems" show ?thesis by (intro exI [of _ 0]) simp
  qed
qed

lemma append_token_lengths:
  "length (a_p_mask (append_token t seg pm a)) = Suc (length (a_p_mask a))"
  "length (a_segment_ids (append_token t seg pm a)) = Suc (length (a_segment_ids a))"
  by (simp_all add: append_token_def)

lemma append_query_lengths:
  "length (a_p_mask (append_query q seg a)) = length (a_p_mask a) + length q"
  "length (a_segment_ids (append_query q seg a)) = length (a_segment_ids a) + length q"
  by (simp_all add: append_query_def)

lemma paragraph_loop_lengths:
  "paragraph_loop args doc_spans i d tti adt is a = Inr a' \<Longrightarrow>
     length (a_p_mask a) = length (a_segment_ids a) \<Longrightarrow>
     length (a_p_mask a') = length (a_segment_ids a')"
proof (induction "is" arbitrary: a)
  case Nil
  then show ?case by simp
next
  case (Cons j js)
  from Cons.prems(1) obtain orig t is_max where
    run: "paragraph_loop args doc_spans i d tti adt js
            (append_token t
               (if \<not> sequence_a_is_doc args then sequence_b_segment_id args
                else sequence_a_segment_id args) 0
               (a\<lparr>a_token_to_orig_map := (a_token_to_orig_map a)(int (length (a_tokens a)) \<mapsto> orig),
                  a_token_is_max_context := (a_token_is_max_context a)(int (length (a_tokens a)) \<mapsto>
                     is_max)\<rparr>)) = Inr a'"
    by (auto simp: Let_def split: sum.splits)
  show ?case
    by (rule Cons.IH [OF run]) (simp add: append_token_lengths Cons.prems(2))
qed

lemma assemble_lengths:
  assumes "assemble args q tti adt doc_spans i d = Inr a"
  shows "length (a_p_mask a) = length (a_segment_ids a)"
proof -
  let ?a0 = "\<lparr>a_tokens = [], a_token_to_orig_map = Map.empty,
                a_token_is_max_context = Map.empty, a_segment_ids = [], a_p_mask = []\<rparr>"
  let ?a1 = "if \<not> cls_token_at_end args
                then append_token (cls_token args) (cls_token_segment_id args) 0 ?a0 else ?a0"
  let ?a2 = "if \<not> sequence_a_is_doc args
                then append_token (sep_token args) (sequence_a_segment_id args) 1
                       (append_query q (sequence_a_segment_id args) ?a1)
                else ?a1"
  have a2: "length (a_p_mask ?a2) = length (a_segment_ids ?a2)"
    by (simp add: append_token_lengths append_query_lengths)
  from assms obtain a3 where
    a3: "paragraph_loop args doc_spans i d tti adt [0..<nat (span_length d)] ?a2 = Inr a3"
    and a: "a = (let a4 = (if sequence_a_is_doc args
                        then append_query q (sequence_b_segment_id args)
                               (append_token (sep_token args) (sequence_a_segment_id args) 1 a3)
                        else a3);
                  a5 = append_token (sep_token args) (sequence_b_segment_id args) 1 a4
              in (if cls_token_at_end args
                        then append_token (cls_token args) (cls_token_segment_id args) 0 a5 else a5))"
    unfolding assemble_def Let_def by (auto split: sum.splits)
  have "length (a_p_mask a3) = length (a_segment_ids a3)"
    by (rule paragraph_loop_lengths [OF a3 a2])
  then show ?thesis
    unfolding a Let_def by (simp add: append_token_lengths append_query_lengths)
qed

lemma finish_feature_padded:
  assumes "pad_loop args (convert_tokens_to_ids tok (a_tokens a),
             replicate (length (convert_tokens_to_ids tok (a_tokens a)))
               (if mask_padding_with_zero args then 1 else 0),
             a_segment_ids a, a_p_mask a) = (ids, m, sg, pm)"
  shows "finish_feature args tok uid ex i d a =
     (if int (length ids) \<noteq> max_seq_length args then Inl AssertionError
      else if int (length m) \<noteq> max_seq_length args then Inl AssertionError
      else if int (length sg) \<noteq> max_seq_length args then Inl AssertionError
      else Inr \<lparr>unique_id = uid, example_index = ex, doc_span_index = i,
                tokens = a_tokens a, token_to_orig_map = a_token_to_orig_map a,
                token_is_max_context = a_token_is_max_context a,
                input_ids = ids, input_mask = m, segment_ids = sg,
                cls_index = (if cls_token_at_end args then int (length (a_tokens a)) - 1 else 0),
                p_mask = pm, paragraph_len = span_length d\<rparr>)"
  unfolding finish_feature_def Let_def assms by simp

lemma finish_feature_lengths:
  assumes "finish_feature args tok uid ex i d a = Inr f"
    and "length (a_p_mask a) = length (a_segment_ids a)"
  shows "int (length (input_ids f)) = max_seq_length args \<and>
         int (length (input_mask f)) = max_seq_length args \<and>
         int (length (segment_ids f)) = max_seq_length args \<and>
         int (length (p_mask f)) = max_seq_length args"
proof -
  let ?ids0 = "convert_tokens_to_ids tok (a_tokens a)"
  let ?m0 = "replicate (length ?ids0) (if mask_padding_with_zero args then 1 else (0::int))"
  obtain ids m sg pm where run: "pad_loop args (?ids0, ?m0, a_segment_ids a, a_p_mask a) = (ids, m, sg, pm)"
    using prod_cases4 by blast
  from pad_loop_grows [OF run] obtain k where
    k: "length sg = length (a_segment_ids a) + k" "length pm = length (a_p_mask a) + k"
    by blast
  have pm: "length pm = length sg"
    using k assms(2) by simp
  from assms(1) have f: "int (length ids) = max_seq_length args \<and>
      int (length m) = max_seq_length args \<and> int (length sg) = max_seq_length args \<and>
      input_ids f = ids \<and> input_mask f = m \<and> segment_ids f = sg \<and> p_mask f = pm"
    unfolding finish_feature_padded [OF run] by (auto split: if_splits)
  then show ?thesis using pm by simp
qed

lemma finish_feature_raises:
  assumes "int (length (convert_tokens_to_ids tok (a_tokens a))) > max_seq_length args \<or>
           length (a_segment_ids a) \<noteq> length (convert_tokens_to_ids tok (a_tokens a))"
  shows "finish_feature args tok uid ex i d a = Inl AssertionError"
proof -
  let ?ids0 = "convert_tokens_to_ids tok (a_tokens a)"
  let ?m0 = "replicate (length ?ids0) (if mask_padding_with_zero args then 1 else (0::int))"
  obtain ids m sg pm where run: "pad_loop args (?ids0, ?m0, a_segment_ids a, a_p_mask a) = (ids, m, sg, pm)"
    using prod_cases4 by blast
  from pad_loop_grows [OF run] obtain k where
    k: "int k = max 0 (max_seq_length args - int (length ?ids0))"
       "length ids = length ?ids0 + k" "length sg = length (a_segment_ids a) + k"
    by blast
  have "int (length ids) \<noteq> max_seq_length args \<or> int (length sg) \<noteq> max_seq_length args"
    using assms k by (auto simp: max_def split: if_splits)
  then show ?thesis
    unfolding finish_feature_padded [OF run] by auto
qed

lemma build_feature_lengths:
  assumes "build_feature args tok uid ex q tti adt doc_spans i d = Inr f"
  shows "int (length (input_ids f)) = max_seq_length args \<and>
         int (length (input_mask f)) = max_seq_length args \<and>
         int (length (segment_ids f)) = max_seq_length args \<and>
         int (length (p_mask f)) = max_seq_length args"
proof -
  from assms obtain a where a: "assemble args q tti adt doc_spans i d = Inr a"
    and f: "finish_feature args tok uid ex i d a = Inr f"
    unfolding build_feature_def by (auto split: sum.splits)
  show ?thesis
    by (rule finish_feature_lengths [OF f assemble_lengths [OF a]])
qed

lemma features_of_spans_lengths:
  "features_of_spans args tok uid ex q tti adt doc_spans ps = Inr fs \<Longrightarrow> f \<in> set fs \<Longrightarrow>
     int (length (input_ids f)) = max_seq_length args \<and>
     int (length (input_mask f)) = max_seq_length args \<and>
     int (length (segment_ids f)) = max_seq_length args \<and>
     int (length (p_mask f)) = max_seq_length args"
proof (induction ps arbitrary: uid fs)
  case Nil
  then show ?case by simp
next
  case (Cons p ps)
  obtain i d where p: "p = (i, d)" by (cases p)
  from Cons.prems(1) obtain f0 fs0 where
    f0: "build_feature args tok uid ex q tti adt doc_spans i d = Inr f0"
    and fs0: "features_of_spans args tok (uid + 1) ex q tti adt doc_spans ps = Inr fs0"
    and fs: "fs = f0 # fs0"
    unfolding p by (auto split: sum.splits)
  from Cons.prems(2) fs consider "f = f0" | "f \<in> set fs0" by auto
  then show ?case
  proof cases
    case 1
    then show ?thesis using build_feature_lengths [OF f0] by simp
  next
    case 2
    then show ?thesis by (rule Cons.IH [OF fs0])
  qed
qed

lemma convert_example_features:
  assumes "convert_example args tok uid ex example = Some (Inr features)"
  shows "\<exists>q tti adt doc_spans ps.
           features_of_spans args tok uid ex q tti adt doc_spans ps = Inr features"
proof -
  let ?q0 = "tokenize tok (question_text example)"
  let ?q = "if int (length ?q0) > max_query_length args
            then py_slice ?q0 0 (max_query_length args) else ?q0"
  let ?sub = "map (tokenize tok) (doc_tokens example)"
  let ?tti = "concat (map (\<lambda>(i, sub). replicate (length sub) i) (enumerate 0 ?sub))"
  let ?adt = "concat ?sub"
  from assms have c: "(case make_doc_spans ?adt ?q (max_seq_length args) (doc_stride args) of
       None \<Rightarrow> None
     | Some doc_spans \<Rightarrow>
         Some (features_of_spans args tok uid ex ?q ?tti ?adt doc_spans (enumerate 0 doc_spans)))
     = Some (Inr features)"
    by (simp only: convert_example_def Let_def)
  then obtain doc_spans where
    "features_of_spans args tok uid ex ?q ?tti ?adt doc_spans (enumerate 0 doc_spans) = Inr features"
    by (cases "make_doc_spans ?adt ?q (max_seq_length args) (doc_stride args)") simp_all
  then show ?thesis by blast
qed

text \<open>
  Claim C6. Every feature \<^verbatim>\<open>_convert_examples_to_features\<close> produces has
  \<^verbatim>\<open>input_ids\<close>, \<^verbatim>\<open>input_mask\<close>, \<^verbatim>\<open>segment_ids\<close> and \<^verbatim>\<open>p_mask\<close> of length exactly
  \<^verbatim>\<open>max_seq_length\<close>. A mismatch is fatal: when the ids of the assembled tokens are more
  than \<^verbatim>\<open>max_seq_length\<close>, or differ in number from the segment ids, the builder raises
  \<^verbatim>\<open>AssertionError\<close>; nothing is truncated.
\<close>

theorem features_have_max_seq_length:
  "(convert_example args tok uid ex example = Some (Inr features) \<longrightarrow>
      (\<forall>f\<in>set features.
         int (length (input_ids f)) = max_seq_length args \<and>
         int (length (input_mask f)) = max_seq_length args \<and>
         int (length (segment_ids f)) = max_seq_length args \<and>
         int (length (p_mask f)) = max_seq_length args)) \<and>
   (assemble args query_tokens tok_to_orig_index all_doc_tokens doc_spans i d = Inr a \<and>
    (int (length (convert_tokens_to_ids tok (a_tokens a))) > max_seq_length args \<or>
     length (a_segment_ids a) \<noteq> length (convert_tokens_to_ids tok (a_tokens a))) \<longrightarrow>
      build_feature args tok uid ex query_tokens tok_to_orig_index all_doc_tokens doc_spans i d
        = Inl AssertionError)"
proof (rule conjI)
  show "convert_example args tok uid ex example = Some (Inr features) \<longrightarrow>
      (\<forall>f\<in>set features.
         int (length (input_ids f)) = max_seq_length args \<and>
         int (length (input_mask f)) = max_seq_length args \<and>
         int (length (segment_ids f)) = max_seq_length args \<and>
         int (length (p_mask f)) = max_seq_length args)"
  proof (intro impI ballI)
    fix f
    assume run: "convert_example args tok uid ex example = Some (Inr features)"
      and f: "f \<in> set features"
    from convert_example_features [OF run] obtain q tti adt doc_spans ps where
      "features_of_spans args tok uid ex q tti adt doc_spans ps = Inr features"
      by blast
    from features_of_spans_lengths [OF this f]
    show "int (length (input_ids f)) = max_seq_length args \<and>
         int (length (input_mask f)) = max_seq_length args \<and>
         int (length (segment_ids f)) = max_seq_length args \<and>
         int (length (p_mask f)) = max_seq_length args" .
  qed
next
  show "assemble args query_tokens tok_to_orig_index all_doc_tokens doc_spans i d = Inr a \<and>
    (int (length (convert_tokens_to_ids tok (a_tokens a))) > max_seq_length args \<or>
     length (a_segment_ids a) \<noteq> length (convert_tokens_to_ids tok (a_tokens a))) \<longrightarrow>
      build_feature args tok uid ex query_tokens tok_to_orig_index all_doc_tokens doc_spans i d
        = Inl AssertionError"
  proof (intro impI, elim conjE)
    assume a: "assemble args query_tokens tok_to_orig_index all_doc_tokens doc_spans i d = Inr a"
      and bad: "int (length (convert_tokens_to_ids tok (a_tokens a))) > max_seq_length args \<or>
        length (a_segment_ids a) \<noteq> length (convert_tokens_to_ids tok (a_tokens a))"
    have "finish_feature args tok uid ex i d a = Inl AssertionError"
      by (rule finish_feature_raises [OF bad])
    then show "build_feature args tok uid ex query_tokens tok_to_orig_index all_doc_tokens doc_spans i d
        = Inl AssertionError"
      by (simp add: build_feature_def a)
  qed
qed

theorem features_have_max_seq_length_witness:
  "\<exists>fs a.
     convert_example sample_args sample_tokenizer 1000000000 0
       \<lparr>qas_id = ''q1'', question_text = ''who'', doc_tokens = [''aa'', ''b'']\<rparr> = Some (Inr fs) \<and>
     fs \<noteq> [] \<and>
     (\<forall>f\<in>set fs. int (length (input_ids f)) = 7 \<and> int (length (input_mask f)) = 7 \<and>
        int (length (segment_ids f)) = 7 \<and> int (length (p_mask f)) = 7) \<and>
     assemble sample_args [''who''] [0, 1, 2, 3, 4] [''a'', ''b'', ''c'', ''d'', ''e'']
       [\<lparr>start = 0, span_length = 5\<rparr>] 0 \<lparr>start = 0, span_length = 5\<rparr> = Inr a \<and>
     7 < int (length (convert_tokens_to_ids sample_tokenizer (a_tokens a))) \<and>
     build_feature sample_args sample_tokenizer 1000000000 0 [''who''] [0, 1, 2, 3, 4]
       [''a'', ''b'', ''c'', ''d'', ''e''] [\<lparr>start = 0, span_length = 5\<rparr>] 0
       \<lparr>start = 0, span_length = 5\<rparr> = Inl AssertionError"
proof -
  let ?ex = "\<lparr>qas_id = ''q1'', question_text = ''who'', doc_tokens = [''aa'', ''b'']\<rparr>"
  let ?d = "\<lparr>start = 0, span_length = 5\<rparr>"
  have msl: "max_seq_length sample_args = 7"
    by (simp add: sample_args_def)
  have "case convert_example sample_args sample_tokenizer 1000000000 0 ?ex of
          Some (Inr fs) \<Rightarrow> fs \<noteq> [] | _ \<Rightarrow> False"
    by code_simp
  then obtain fs where fs: "convert_example sample_args sample_tokenizer 1000000000 0 ?ex = Some (Inr fs)"
    and ne: "fs \<noteq> []"
    by (auto split: option.splits sum.splits)
  have "case assemble sample_args [''who''] [0, 1, 2, 3, 4] [''a'', ''b'', ''c'', ''d'', ''e'']
               [?d] 0 ?d of
          Inr a \<Rightarrow> 7 < int (length (convert_tokens_to_ids sample_tokenizer (a_tokens a)))
        | _ \<Rightarrow> False"
    by code_simp
  then obtain a where a: "assemble sample_args [''who''] [0, 1, 2, 3, 4]
        [''a'', ''b'', ''c'', ''d'', ''e''] [?d] 0 ?d = Inr a"
    and long: "7 < int (length (convert_tokens_to_ids sample_tokenizer (a_tokens a)))"
    by (auto split: sum.splits)
  note inst = features_have_max_seq_length [of sample_args sample_tokenizer 1000000000 0 ?ex fs
      "[''who'']" "[0, 1, 2, 3, 4]" "[''a'', ''b'', ''c'', ''d'', ''e'']" "[?d]" 0 ?d a]
  have "\<forall>f\<in>set fs. int (length (input_ids f)) = 7 \<and> int (length (input_mask f)) = 7 \<and>
        int (length (segment_ids f)) = 7 \<and> int (length (p_mask f)) = 7"
    using inst fs msl by simp
  moreover have "build_feature sample_args sample_tokenizer 1000000000 0 [''who''] [0, 1, 2, 3, 4]
       [''a'', ''b'', ''c'', ''d'', ''e''] [?d] 0 ?d = Inl AssertionError"
    using inst a long msl by simp
  ultimately show ?thesis using fs ne a long by blast
qed

section \<open>Properties of the text re-aligner\<close>

lemma find_from_found:
  "find_from sub i text \<noteq> - 1 \<Longrightarrow> \<exists>pre suf. text = pre @ sub @ suf"
proof (induction "text" arbitrary: i)
  case Nil
  then show ?case by (auto split: if_splits)
next
  case (Cons c cs)
  show ?case
  proof (cases "take (length sub) (c # cs) = sub")
    case True
    then have "c # cs = [] @ sub @ drop (length sub) (c # cs)"
      by (metis append_Nil append_take_drop_id)
    then show ?thesis by blast
  next
    case False
    with Cons.prems have "find_from sub (Suc i) cs \<noteq> - 1" by simp
    from Cons.IH [OF this] obtain pre suf where "cs = pre @ sub @ suf" by blast
    then have "c # cs = (c # pre) @ sub @ suf" by simp
    then show ?thesis by blast
  qed
qed

lemma find_from_substring:
  "text = pre @ sub @ suf \<Longrightarrow> find_from sub i text \<noteq> - 1"
proof (induction pre arbitrary: i "text")
  case Nil
  then have "take (length sub) text = sub" by simp
  then show ?case by (cases "text") simp_all
next
  case (Cons p ps)
  then have tx: "text = p # (ps @ sub @ suf)" by simp
  from Cons.IH [of "ps @ sub @ suf" "Suc i"] show ?case
    unfolding tx by auto
qed

lemma str_find_missing:
  "str_find text sub = - 1 \<longleftrightarrow> \<not> (\<exists>pre suf. text = pre @ sub @ suf)"
  unfolding str_find_def using find_from_found find_from_substring by blast

lemma strip_spaces_loop_text:
  "fst (strip_spaces_loop ps ns_chars m) = ns_chars @ filter (\<lambda>c. c \<noteq> CHR '' '') (map snd ps)"
  by (induction ps ns_chars m rule: strip_spaces_loop.induct) auto

lemma strip_spaces_text: "fst (strip_spaces text) = filter (\<lambda>c. c \<noteq> CHR '' '') text"
  by (simp add: strip_spaces_def strip_spaces_loop_text map_snd_enumerate)

text \<open>
  Claim C8. \<^verbatim>\<open>get_final_text\<close> returns \<^verbatim>\<open>orig_text\<close> unchanged when \<^verbatim>\<open>pred_text\<close> does not
  occur in the space-joined basic tokenization of \<^verbatim>\<open>orig_text\<close>, when the two texts
  without their spaces differ in length, or when the translation of the start or of the
  end position through the two index maps misses. The function is total: every
  dictionary read of the source is guarded by a membership test and slicing cannot raise.
\<close>

theorem get_final_text_falls_back:
  assumes tok: "tok_text = join '' '' (basic_tokenize do_lower_case orig_text)"
    and s: "start_position = str_find tok_text pred_text"
    and e: "end_position = start_position + int (length pred_text) - 1"
    and m: "tok_s_to_ns_map = invert_map (snd (strip_spaces tok_text))"
    and failure:
      "\<not> (\<exists>pre suf. tok_text = pre @ pred_text @ suf) \<or>
       length (filter (\<lambda>c. c \<noteq> CHR '' '') orig_text) \<noteq> length (filter (\<lambda>c. c \<noteq> CHR '' '') tok_text) \<or>
       translate_position tok_s_to_ns_map (snd (strip_spaces orig_text)) start_position = None \<or>
       translate_position tok_s_to_ns_map (snd (strip_spaces orig_text)) end_position = None"
  shows "get_final_text basic_tokenize pred_text orig_text do_lower_case = orig_text"
proof -
  obtain ot om where o: "strip_spaces orig_text = (ot, om)" by (cases "strip_spaces orig_text")
  obtain tt tm where t: "strip_spaces tok_text = (tt, tm)" by (cases "strip_spaces tok_text")
  have ot: "ot = filter (\<lambda>c. c \<noteq> CHR '' '') orig_text" and tt: "tt = filter (\<lambda>c. c \<noteq> CHR '' '') tok_text"
    using strip_spaces_text [of orig_text] strip_spaces_text [of tok_text] o t by simp_all
  have m': "invert_map tm = tok_s_to_ns_map"
    using m t by simp
  have unfolded: "get_final_text basic_tokenize pred_text orig_text do_lower_case =
     (if start_position = - 1 then orig_text
      else if length ot \<noteq> length tt then orig_text
      else (case translate_position tok_s_to_ns_map om start_position of
              None \<Rightarrow> orig_text
            | Some orig_start_position \<Rightarrow>
                (case translate_position tok_s_to_ns_map om end_position of
                   None \<Rightarrow> orig_text
                 | Some orig_end_position \<Rightarrow>
                     py_slice orig_text orig_start_position (orig_end_position + 1))))"
    unfolding get_final_text_def Let_def tok [symmetric] s [symmetric] e [symmetric] o t
    by (simp add: m' cong: option.case_cong)
  from failure consider
      "start_position = - 1" | "length ot \<noteq> length tt"
    | "translate_position tok_s_to_ns_map om start_position = None"
    | "translate_position tok_s_to_ns_map om end_position = None"
    using str_find_missing [of tok_text pred_text] s ot tt o by auto
  then show ?thesis
    unfolding unfolded by cases (auto split: option.splits)
qed

theorem get_final_text_falls_back_witness:
  "\<not> (\<exists>pre suf. join '' '' (sample_basic_tokenize True ''Steve Smith'') = pre @ ''xyz'' @ suf) \<and>
   get_final_text sample_basic_tokenize ''xyz'' ''Steve Smith'' True = ''Steve Smith'' \<and>
   str_find (join '' '' (sample_basic_tokenize True ''Steve Smith'')) '' smith'' = 5 \<and>
   translate_position
     (invert_map (snd (strip_spaces (join '' '' (sample_basic_tokenize True ''Steve Smith'')))))
     (snd (strip_spaces ''Steve Smith'')) 5 = None \<and>
   get_final_text sample_basic_tokenize '' smith'' ''Steve Smith'' True = ''Steve Smith''"
proof -
  let ?tok = "join '' '' (sample_basic_tokenize True ''Steve Smith'')"
  have "str_find ?tok ''xyz'' = - 1"
    by code_simp
  then have missing: "\<not> (\<exists>pre suf. ?tok = pre @ ''xyz'' @ suf)"
    using str_find_missing by blast
  have start: "str_find ?tok '' smith'' = 5"
    by code_simp
  have miss: "translate_position (invert_map (snd (strip_spaces ?tok)))
      (snd (strip_spaces ''Steve Smith'')) 5 = None"
    by code_simp
  have "get_final_text sample_basic_tokenize ''xyz'' ''Steve Smith'' True = ''Steve Smith''"
    by (rule get_final_text_falls_back [OF refl refl refl refl]) (use missing in blast)
  moreover have "get_final_text sample_basic_tokenize '' smith'' ''Steve Smith'' True = ''Steve Smith''"
    by (rule get_final_text_falls_back [OF refl refl refl refl]) (use miss start in simp)
  ultimately show ?thesis using missing start miss by blast
qed

section \<open>Properties of the span decoders\<close>

subsection \<open>The position dictionaries of built features\<close>

lemma append_token_maps [simp]:
  "a_token_to_orig_map (append_token t seg pm a) = a_token_to_orig_map a"
  "a_token_is_max_context (append_token t seg pm a) = a_token_is_max_context a"
  "a_tokens (append_token t seg pm a) = a_tokens a @ [t]"
  by (simp_all add: append_token_def)

lemma append_query_maps [simp]:
  "a_token_to_orig_map (append_query q seg a) = a_token_to_orig_map a"
  "a_token_is_max_context (append_query q seg a) = a_token_is_max_context a"
  "a_tokens (append_query q seg a) = a_tokens a @ q"
  by (simp_all add: append_query_def)

lemma paragraph_loop_keys:
  "paragraph_loop args doc_spans i d tti adt js a = Inr a' \<Longrightarrow>
     length (a_tokens a') = length (a_tokens a) + length js \<and>
     (\<forall>k. (a_token_to_orig_map a' k \<noteq> None) =
          (a_token_to_orig_map a k \<noteq> None \<or>
           (int (length (a_tokens a)) \<le> k \<and> k < int (length (a_tokens a)) + int (length js)))) \<and>
     (\<forall>k. (a_token_is_max_context a' k \<noteq> None) =
          (a_token_is_max_context a k \<noteq> None \<or>
           (int (length (a_tokens a)) \<le> k \<and> k < int (length (a_tokens a)) + int (length js))))"
proof (induction js arbitrary: a)
  case Nil
  then show ?case by auto
next
  case (Cons j js)
  from Cons.prems obtain orig t is_max where
    run: "paragraph_loop args doc_spans i d tti adt js
            (append_token t
               (if \<not> sequence_a_is_doc args then sequence_b_segment_id args
                else sequence_a_segment_id args) 0
               (a\<lparr>a_token_to_orig_map := (a_token_to_orig_map a)(int (length (a_tokens a)) \<mapsto> orig),
                  a_token_is_max_context := (a_token_is_max_context a)(int (length (a_tokens a)) \<mapsto>
                     is_max)\<rparr>)) = Inr a'"
    by (auto simp: Let_def split: sum.splits)
  from Cons.IH [OF run] show ?case
    by (simp add: append_token_def) (intro conjI allI; auto)
qed

lemma assemble_keys:
  assumes "assemble args q tti adt doc_spans i d = Inr a"
  shows "\<forall>k. (a_token_to_orig_map a k \<noteq> None) =
           (int ((if cls_token_at_end args then 0 else 1) +
                 (if sequence_a_is_doc args then 0 else length q + 1)) \<le> k \<and>
            k < int ((if cls_token_at_end args then 0 else 1) +
                 (if sequence_a_is_doc args then 0 else length q + 1)) + int (nat (span_length d)))"
    and "\<forall>k. (a_token_is_max_context a k \<noteq> None) = (a_token_to_orig_map a k \<noteq> None)"
proof -
  let ?a0 = "\<lparr>a_tokens = [], a_token_to_orig_map = Map.empty,
                a_token_is_max_context = Map.empty, a_segment_ids = [], a_p_mask = []\<rparr>"
  let ?a1 = "if \<not> cls_token_at_end args
                then append_token (cls_token args) (cls_token_segment_id args) 0 ?a0 else ?a0"
  let ?a2 = "if \<not> sequence_a_is_doc args
                then append_token (sep_token args) (sequence_a_segment_id args) 1
                       (append_query q (sequence_a_segment_id args) ?a1)
                else ?a1"
  have a2: "length (a_tokens ?a2) = (if cls_token_at_end args then 0 else 1) +
                 (if sequence_a_is_doc args then 0 else length q + 1)"
    "a_token_to_orig_map ?a2 = Map.empty" "a_token_is_max_context ?a2 = Map.empty"
    by simp_all
  from assms obtain a3 where
    a3: "paragraph_loop args doc_spans i d tti adt [0..<nat (span_length d)] ?a2 = Inr a3"
    and a: "a = (let a4 = (if sequence_a_is_doc args
                        then append_query q (sequence_b_segment_id args)
                               (append_token (sep_token args) (sequence_a_segment_id args) 1 a3)
                        else a3);
                  a5 = append_token (sep_token args) (sequence_b_segment_id args) 1 a4
              in (if cls_token_at_end args
                        then append_token (cls_token args) (cls_token_segment_id args) 0 a5 else a5))"
    unfolding assemble_def Let_def by (auto split: sum.splits)
  have maps: "a_token_to_orig_map a = a_token_to_orig_map a3"
    "a_token_is_max_context a = a_token_is_max_context a3"
    unfolding a Let_def by simp_all
  note keys = paragraph_loop_keys [OF a3, unfolded a2]
  show "\<forall>k. (a_token_to_orig_map a k \<noteq> None) =
           (int ((if cls_token_at_end args then 0 else 1) +
                 (if sequence_a_is_doc args then 0 else length q + 1)) \<le> k \<and>
            k < int ((if cls_token_at_end args then 0 else 1) +
                 (if sequence_a_is_doc args then 0 else length q + 1)) + int (nat (span_length d)))"
    unfolding maps using keys by simp
  show "\<forall>k. (a_token_is_max_context a k \<noteq> None) = (a_token_to_orig_map a k \<noteq> None)"
    unfolding maps using keys by simp
qed

text \<open>
  The features the builder produces have the keys \<open>doc_keys\<close> asks for: the positions of
  the chunk, after the classification token and the query where these come first.
\<close>

lemma build_feature_doc_keys:
  assumes "build_feature args tok uid ex q tti adt doc_spans i d = Inr f"
    and "0 \<le> span_length d"
  shows "doc_keys f (int ((if cls_token_at_end args then 0 else 1) +
                          (if sequence_a_is_doc args then 0 else length q + 1)))"
proof -
  from assms(1) obtain a where a: "assemble args q tti adt doc_spans i d = Inr a"
    and f: "finish_feature args tok uid ex i d a = Inr f"
    unfolding build_feature_def by (auto split: sum.splits)
  obtain ids m sg pm where run: "pad_loop args (convert_tokens_to_ids tok (a_tokens a),
             replicate (length (convert_tokens_to_ids tok (a_tokens a)))
               (if mask_padding_with_zero args then 1 else 0),
             a_segment_ids a, a_p_mask a) = (ids, m, sg, pm)"
    using prod_cases4 by blast
  from f have fields: "token_to_orig_map f = a_token_to_orig_map a"
    "token_is_max_context f = a_token_is_max_context a" "paragraph_len f = span_length d"
    unfolding finish_feature_padded [OF run] by (auto split: if_splits)
  show ?thesis
    unfolding doc_keys_def fields using assemble_keys [OF a] assms(2) by simp
qed

subsection \<open>Preliminary predictions\<close>

lemma feature_pairs_valid:
  assumes "feature_pairs fi feature result n_best_size max_answer_length = Inr pairs"
    and "p \<in> set pairs"
  shows "feature_index p = fi \<and> pair_valid feature (start_index p) (end_index p) max_answer_length"
  using assms unfolding feature_pairs_def by (auto split: if_splits sum.splits)

lemma pair_valid_props:
  assumes "pair_valid feature si ei max_answer_length"
  shows "token_to_orig_map feature si \<noteq> None \<and> token_to_orig_map feature ei \<noteq> None \<and>
         token_is_max_context feature si = Some True \<and>
         si < int (length (tokens feature)) \<and> ei < int (length (tokens feature)) \<and>
         si \<le> ei \<and> ei - si + 1 \<le> max_answer_length"
  using assms unfolding pair_valid_def by (auto split: if_splits option.splits)

text \<open>
  Every prediction the loop over the features adds comes from a pair that passed the
  filters of the feature it names.
\<close>

lemma features_loop_valid:
  "features_loop v2 n_best_size max_answer_length results ifs (prelim, ns) = Inr (prelim', ns') \<Longrightarrow>
   p \<in> set prelim' \<Longrightarrow>
   p \<in> set prelim \<or>
   (\<exists>(fi, f)\<in>set ifs. feature_index p = fi \<and>
        pair_valid f (start_index p) (end_index p) max_answer_length)"
proof (induction ifs arbitrary: prelim ns)
  case Nil
  then show ?case by simp
next
  case (Cons x ifs)
  obtain fi f where x: "x = (fi, f)" by (cases x)
  from Cons.prems(1) obtain result pairs ns1 where
    pairs: "feature_pairs fi f result n_best_size max_answer_length = Inr pairs"
    and run: "features_loop v2 n_best_size max_answer_length results ifs
            (prelim @ pairs, ns1) = Inr (prelim', ns')"
    unfolding x by (auto split: option.splits sum.splits)
  from Cons.IH [OF run Cons.prems(2)] show ?case
    unfolding x using feature_pairs_valid [OF pairs, of p]
    by auto
qed

lemma extended_pairs_loop_valid:
  "extended_pairs_loop fi f result end_n_top max_answer_length ijs prelim = Inr prelim' \<Longrightarrow>
   p \<in> set prelim' \<Longrightarrow>
   p \<in> set prelim \<or>
   (feature_index p = fi \<and> start_index p < paragraph_len f - 1 \<and> end_index p < paragraph_len f - 1 \<and>
    token_is_max_context f (start_index p) = Some True \<and> start_index p \<le> end_index p \<and>
    end_index p - start_index p + 1 \<le> max_answer_length)"
proof (induction ijs arbitrary: prelim)
  case Nil
  then show ?case by simp
next
  case (Cons x ijs)
  obtain i j where x: "x = (i, j)" by (cases x)
  from Cons.prems(1) obtain slp si elp ei where
    reads: "py_get (start_top_log_probs result) (int i) = Inr slp"
      "py_get (start_top_index result) (int i) = Inr si"
      "py_get (end_top_log_probs result) (int i * end_n_top + int j) = Inr elp"
      "py_get (end_top_index result) (int i * end_n_top + int j) = Inr ei"
    unfolding x by (auto simp: Let_def split: sum.splits)
  let ?ok = "\<not> si \<ge> paragraph_len f - 1 \<and> \<not> ei \<ge> paragraph_len f - 1 \<and>
      (case token_is_max_context f si of None \<Rightarrow> False | Some v \<Rightarrow> v) \<and> \<not> ei < si \<and>
      \<not> ei - si + 1 > max_answer_length"
  let ?new = "\<lparr>feature_index = fi, start_index = si, end_index = ei,
                start_logit = slp, end_logit = elp\<rparr>"
  have step: "extended_pairs_loop fi f result end_n_top max_answer_length (x # ijs) prelim =
      extended_pairs_loop fi f result end_n_top max_answer_length ijs
        (if ?ok then prelim @ [?new] else prelim)"
    unfolding x using reads by (simp add: Let_def)
  from Cons.prems(1) have run: "extended_pairs_loop fi f result end_n_top max_answer_length ijs
        (if ?ok then prelim @ [?new] else prelim) = Inr prelim'"
    unfolding step .
  from Cons.IH [OF run Cons.prems(2)] show ?case
    by (auto split: if_splits option.splits)
qed

lemma extended_features_loop_valid:
  "extended_features_loop start_n_top end_n_top max_answer_length results ifs (prelim, sn) = Inr (prelim', sn') \<Longrightarrow>
   p \<in> set prelim' \<Longrightarrow>
   p \<in> set prelim \<or>
   (\<exists>(fi, f)\<in>set ifs. feature_index p = fi \<and>
      start_index p < paragraph_len f - 1 \<and> end_index p < paragraph_len f - 1 \<and>
      token_is_max_context f (start_index p) = Some True \<and> start_index p \<le> end_index p \<and>
      end_index p - start_index p + 1 \<le> max_answer_length)"
proof (induction ifs arbitrary: prelim sn)
  case Nil
  then show ?case by simp
next
  case (Cons x ifs)
  obtain fi f where x: "x = (fi, f)" by (cases x)
  from Cons.prems(1) obtain result prelim1 sn1 where
    pairs: "extended_pairs_loop fi f result end_n_top max_answer_length
              (List.product [0..<nat start_n_top] [0..<nat end_n_top]) prelim = Inr prelim1"
    and run: "extended_features_loop start_n_top end_n_top max_answer_length results ifs
            (prelim1, sn1) = Inr (prelim', sn')"
    unfolding x by (auto split: option.splits sum.splits)
  from Cons.IH [OF run Cons.prems(2)] show ?case
  proof
    assume "p \<in> set prelim1"
    from extended_pairs_loop_valid [OF pairs this] show ?thesis
      unfolding x by auto
  next
    assume "\<exists>(fi, f)\<in>set ifs. feature_index p = fi \<and>
      start_index p < paragraph_len f - 1 \<and> end_index p < paragraph_len f - 1 \<and>
      token_is_max_context f (start_index p) = Some True \<and> start_index p \<le> end_index p \<and>
      end_index p - start_index p + 1 \<le> max_answer_length"
    then show ?thesis by auto
  qed
qed

lemma doc_keys_in_range:
  assumes "doc_keys f off" and "token_is_max_context f si = Some True"
    and "si \<le> ei" and "ei < paragraph_len f - 1"
  shows "token_to_orig_map f si \<noteq> None \<and> token_to_orig_map f ei \<noteq> None"
proof -
  from assms(1) have off: "0 \<le> off"
    and keys: "\<And>k. (token_to_orig_map f k \<noteq> None) = (off \<le> k \<and> k < off + paragraph_len f)"
    and same: "\<And>k. (token_is_max_context f k \<noteq> None) = (token_to_orig_map f k \<noteq> None)"
    unfolding doc_keys_def by blast+
  from assms(2) same [of si] have s: "token_to_orig_map f si \<noteq> None" by simp
  then have "off \<le> si" using keys [of si] by simp
  then have "off \<le> ei \<and> ei < off + paragraph_len f"
    using assms(3,4) off by linarith
  then show ?thesis using s keys [of ei] by simp
qed

text \<open>
  Claim C2, as amended. Every PrelimPrediction the standard head builds from an
  enumerated pair of indexes has a start and an end index that are keys of its
  feature's \<^verbatim>\<open>token_to_orig_map\<close>, an end not before the start and a length of at most
  \<^verbatim>\<open>max_answer_length\<close>; the one other entry is the null prediction appended when null
  answers are enabled, with both indexes 0. Every PrelimPrediction of the pointer head
  has both indexes below \<^verbatim>\<open>paragraph_len - 1\<close>, a start flagged as max-context, an end
  not before the start and a length of at most \<^verbatim>\<open>max_answer_length\<close>; its indexes are
  keys of \<^verbatim>\<open>token_to_orig_map\<close> for a feature whose two position dictionaries have the
  keys the feature builder gives them.
\<close>

theorem prelim_predictions_structurally_valid:
  "(prelim_predictions v2 n_best_size max_answer_length results features = Inr (prelims, ns) \<longrightarrow>
      (\<forall>p\<in>set prelims.
         (v2 \<and> p = null_prediction ns) \<or>
         (feature_index p < length features \<and>
          token_to_orig_map (features ! feature_index p) (start_index p) \<noteq> None \<and>
          token_to_orig_map (features ! feature_index p) (end_index p) \<noteq> None \<and>
          start_index p \<le> end_index p \<and>
          end_index p - start_index p + 1 \<le> max_answer_length))) \<and>
   (prelim_predictions_extended start_n_top end_n_top max_answer_length results_ext features
      = Inr (prelims_ext, null_score) \<longrightarrow>
      (\<forall>p\<in>set prelims_ext.
         feature_index p < length features \<and>
         start_index p < paragraph_len (features ! feature_index p) - 1 \<and>
         end_index p < paragraph_len (features ! feature_index p) - 1 \<and>
         token_is_max_context (features ! feature_index p) (start_index p) = Some True \<and>
         start_index p \<le> end_index p \<and>
         end_index p - start_index p + 1 \<le> max_answer_length \<and>
         (\<forall>off. doc_keys (features ! feature_index p) off \<longrightarrow>
            token_to_orig_map (features ! feature_index p) (start_index p) \<noteq> None \<and>
            token_to_orig_map (features ! feature_index p) (end_index p) \<noteq> None)))"
proof (rule conjI; intro impI ballI)
  fix p
  assume run: "prelim_predictions v2 n_best_size max_answer_length results features = Inr (prelims, ns)"
    and p: "p \<in> set prelims"
  from run obtain prelim where
    loop: "features_loop v2 n_best_size max_answer_length results (enumerate 0 features)
             ([], initial_null_state) = Inr (prelim, ns)"
    and sorted: "py_sorted (\<lambda>x. PyFloat (float_add (start_logit x) (end_logit x))) True
                   (if v2 then prelim @ [null_prediction ns] else prelim) = Inr prelims"
    unfolding prelim_predictions_def by (auto split: sum.splits)
  from p py_sorted_permutes [OF sorted] consider "v2" "p = null_prediction ns" | "p \<in> set prelim"
    by (auto split: if_splits)
  then show "(v2 \<and> p = null_prediction ns) \<or>
         (feature_index p < length features \<and>
          token_to_orig_map (features ! feature_index p) (start_index p) \<noteq> None \<and>
          token_to_orig_map (features ! feature_index p) (end_index p) \<noteq> None \<and>
          start_index p \<le> end_index p \<and>
          end_index p - start_index p + 1 \<le> max_answer_length)"
  proof cases
    case 1
    then show ?thesis by simp
  next
    case 2
    from features_loop_valid [OF loop 2] obtain fi f where
      "(fi, f) \<in> set (enumerate 0 features)" "feature_index p = fi"
      "pair_valid f (start_index p) (end_index p) max_answer_length"
      by auto
    then have "feature_index p < length features"
      and "pair_valid (features ! feature_index p) (start_index p) (end_index p) max_answer_length"
      by (auto simp: in_set_enumerate_eq)
    then show ?thesis using pair_valid_props by blast
  qed
next
  fix p
  assume run: "prelim_predictions_extended start_n_top end_n_top max_answer_length results_ext features
      = Inr (prelims_ext, null_score)"
    and p: "p \<in> set prelims_ext"
  from run obtain prelim where
    loop: "extended_features_loop start_n_top end_n_top max_answer_length results_ext
             (enumerate 0 features) ([], Fin 1000000) = Inr (prelim, null_score)"
    and sorted: "py_sorted (\<lambda>x. PyFloat (float_add (start_logit x) (end_logit x))) True prelim
                   = Inr prelims_ext"
    unfolding prelim_predictions_extended_def by (auto split: sum.splits)
  from p py_sorted_permutes [OF sorted] have "p \<in> set prelim" by simp
  from extended_features_loop_valid [OF loop this] obtain fi f where
    "(fi, f) \<in> set (enumerate 0 features)" "feature_index p = fi"
    "start_index p < paragraph_len f - 1" "end_index p < paragraph_len f - 1"
    "token_is_max_context f (start_index p) = Some True" "start_index p \<le> end_index p"
    "end_index p - start_index p + 1 \<le> max_answer_length"
    by auto
  then have props: "feature_index p < length features"
    "start_index p < paragraph_len (features ! feature_index p) - 1"
    "end_index p < paragraph_len (features ! feature_index p) - 1"
    "token_is_max_context (features ! feature_index p) (start_index p) = Some True"
    "start_index p \<le> end_index p" "end_index p - start_index p + 1 \<le> max_answer_length"
    by (auto simp: in_set_enumerate_eq)
  have "\<forall>off. doc_keys (features ! feature_index p) off \<longrightarrow>
            token_to_orig_map (features ! feature_index p) (start_index p) \<noteq> None \<and>
            token_to_orig_map (features ! feature_index p) (end_index p) \<noteq> None"
    using doc_keys_in_range [OF _ props(4) props(5) props(3)] by blast
  with props show "feature_index p < length features \<and>
         start_index p < paragraph_len (features ! feature_index p) - 1 \<and>
         end_index p < paragraph_len (features ! feature_index p) - 1 \<and>
         token_is_max_context (features ! feature_index p) (start_index p) = Some True \<and>
         start_index p \<le> end_index p \<and>
         end_index p - start_index p + 1 \<le> max_answer_length \<and>
         (\<forall>off. doc_keys (features ! feature_index p) off \<longrightarrow>
            token_to_orig_map (features ! feature_index p) (start_index p) \<noteq> None \<and>
            token_to_orig_map (features ! feature_index p) (end_index p) \<noteq> None)"
    by blast
qed

theorem prelim_predictions_structurally_valid_witness:
  "prelim_predictions True 3 30 (unique_id_to_result [sample_result]) [sample_feature] =
     Inr ([\<lparr>feature_index = 0, start_index = 3, end_index = 5, start_logit = Fin 5, end_logit = Fin 4\<rparr>,
           \<lparr>feature_index = 0, start_index = 3, end_index = 3, start_logit = Fin 5, end_logit = Fin 1\<rparr>,
           \<lparr>feature_index = 0, start_index = 4, end_index = 5, start_logit = Fin 2, end_logit = Fin 4\<rparr>,
           \<lparr>feature_index = 0, start_index = 0, end_index = 0, start_logit = Fin 1, end_logit = Fin 1\<rparr>],
          \<lparr>score_null = Fin 2, min_null_feature_index = 0, null_start_logit = Fin 1, null_end_logit = Fin 1\<rparr>) \<and>
   token_to_orig_map sample_feature 3 \<noteq> None \<and>
   token_to_orig_map sample_feature 4 \<noteq> None \<and>
   token_to_orig_map sample_feature 5 \<noteq> None \<and>
   prelim_predictions_extended 2 2 30 (unique_id_to_result_extended [sample_result_extended])
     [sample_feature_doc_first] =
     Inr ([\<lparr>feature_index = 0, start_index = 0, end_index = 1, start_logit = Fin (- 1), end_logit = Fin (- 1)\<rparr>,
           \<lparr>feature_index = 0, start_index = 0, end_index = 0, start_logit = Fin (- 1), end_logit = Fin (- 2)\<rparr>,
           \<lparr>feature_index = 0, start_index = 1, end_index = 1, start_logit = Fin (- 2), end_logit = Fin (- 3)\<rparr>],
          Fin (- 5)) \<and>
   doc_keys sample_feature_doc_first 0 \<and>
   token_to_orig_map sample_feature_doc_first 0 \<noteq> None \<and>
   token_to_orig_map sample_feature_doc_first 1 \<noteq> None"
proof -
  let ?ns = "\<lparr>score_null = Fin 2, min_null_feature_index = 0, null_start_logit = Fin 1, null_end_logit = Fin 1\<rparr>"
  let ?pairs = "[\<lparr>feature_index = 0, start_index = 3, end_index = 5, start_logit = Fin 5, end_logit = Fin 4\<rparr>,
           \<lparr>feature_index = 0, start_index = 3, end_index = 3, start_logit = Fin 5, end_logit = Fin 1\<rparr>,
           \<lparr>feature_index = 0, start_index = 4, end_index = 5, start_logit = Fin 2, end_logit = Fin 4\<rparr>]"
  let ?null = "\<lparr>feature_index = 0, start_index = 0, end_index = 0, start_logit = Fin 1, end_logit = Fin 1\<rparr>"
  let ?ext = "[\<lparr>feature_index = 0, start_index = 0, end_index = 1, start_logit = Fin (- 1), end_logit = Fin (- 1)\<rparr>,
           \<lparr>feature_index = 0, start_index = 0, end_index = 0, start_logit = Fin (- 1), end_logit = Fin (- 2)\<rparr>,
           \<lparr>feature_index = 0, start_index = 1, end_index = 1, start_logit = Fin (- 2), end_logit = Fin (- 3)\<rparr>]"
  have std: "prelim_predictions True 3 30 (unique_id_to_result [sample_result]) [sample_feature] =
      Inr (?pairs @ [?null], ?ns)"
    by code_simp
  have ext: "prelim_predictions_extended 2 2 30
      (unique_id_to_result_extended [sample_result_extended]) [sample_feature_doc_first] =
      Inr (?ext, Fin (- 5))"
    by code_simp
  have keys: "doc_keys sample_feature_doc_first 0"
    by (auto simp: doc_keys_def sample_feature_doc_first_def)
  have plen: "paragraph_len sample_feature_doc_first = 3"
    by (simp add: sample_feature_doc_first_def)
  note inst_std = prelim_predictions_structurally_valid
    [of True 3 30 "unique_id_to_result [sample_result]" "[sample_feature]" "?pairs @ [?null]" ?ns
        2 2 "unique_id_to_result_extended [sample_result_extended]" ?ext "Fin (- 5)", THEN conjunct1]
  note inst_ext = prelim_predictions_structurally_valid
    [of True 3 30 "unique_id_to_result [sample_result]" "[sample_feature_doc_first]"
        "?pairs @ [?null]" ?ns
        2 2 "unique_id_to_result_extended [sample_result_extended]" ?ext "Fin (- 5)", THEN conjunct2]
  have not_null: "\<forall>p\<in>set ?pairs. p \<noteq> null_prediction ?ns"
    by (simp add: null_prediction_def)
  have a: "\<forall>p\<in>set ?pairs.
      token_to_orig_map sample_feature (start_index p) \<noteq> None \<and>
      token_to_orig_map sample_feature (end_index p) \<noteq> None \<and>
      start_index p \<le> end_index p \<and> end_index p - start_index p + 1 \<le> 30"
    using inst_std std not_null by simp
  have b: "\<forall>p\<in>set ?ext.
      start_index p < 2 \<and> end_index p < 2 \<and>
      token_to_orig_map sample_feature_doc_first (start_index p) \<noteq> None \<and>
      token_to_orig_map sample_feature_doc_first (end_index p) \<noteq> None \<and>
      start_index p \<le> end_index p \<and> end_index p - start_index p + 1 \<le> 30"
    using inst_ext ext keys plen by simp blast
  from std ext keys a b show ?thesis by simp
qed

text \<open>
  Claim C2 as stated does not hold: with null answers enabled the standard head appends
  a PrelimPrediction with start and end index 0, the position of the classification
  token, which is not a key of the feature's \<^verbatim>\<open>token_to_orig_map\<close>.
\<close>

theorem prelim_predictions_null_entry_counterexample:
  "prelim_predictions True 3 30 (unique_id_to_result [sample_result]) [sample_feature] =
     Inr ([\<lparr>feature_index = 0, start_index = 3, end_index = 5, start_logit = Fin 5, end_logit = Fin 4\<rparr>,
           \<lparr>feature_index = 0, start_index = 3, end_index = 3, start_logit = Fin 5, end_logit = Fin 1\<rparr>,
           \<lparr>feature_index = 0, start_index = 4, end_index = 5, start_logit = Fin 2, end_logit = Fin 4\<rparr>,
           \<lparr>feature_index = 0, start_index = 0, end_index = 0, start_logit = Fin 1, end_logit = Fin 1\<rparr>],
          \<lparr>score_null = Fin 2, min_null_feature_index = 0, null_start_logit = Fin 1, null_end_logit = Fin 1\<rparr>) \<and>
   token_to_orig_map sample_feature 0 = None"
  by code_simp

subsection \<open>The n-best list\<close>

text \<open>
  With null answers enabled the null score after the loop over the features is not a NaN,
  no feature has a null score below it, and the null state is either the state before
  the loop or the null score and logits of one of the features.
\<close>

lemma update_null_result:
  assumes "update_null fi r ns = Inr ns'"
  shows "\<exists>s0 e0. py_get (start_logits r) 0 = Inr s0 \<and> py_get (end_logits r) 0 = Inr e0 \<and>
           ns' = (if float_lt (float_add s0 e0) (score_null ns)
                  then \<lparr>score_null = float_add s0 e0, min_null_feature_index = fi,
                         null_start_logit = s0, null_end_logit = e0\<rparr>
                  else ns)"
  using assms unfolding update_null_def by (auto simp: Let_def split: sum.splits)

lemma float_not_lt_trans:
  "\<not> float_lt x y \<Longrightarrow> \<not> float_lt y z \<Longrightarrow> y \<noteq> NaN \<Longrightarrow> \<not> float_lt x z"
  by (auto simp: float_lt_def)

lemma float_lt_facts:
  "float_lt x y \<Longrightarrow> x \<noteq> NaN \<and> y \<noteq> NaN \<and> \<not> float_lt y x"
  "\<not> float_lt x x"
  by (auto simp: float_lt_def)

lemma features_loop_null_state:
  "features_loop True n m results ifs (prelim, ns) = Inr (prelim', ns') \<Longrightarrow>
   score_null ns \<noteq> NaN \<Longrightarrow>
   score_null ns' \<noteq> NaN \<and> \<not> float_lt (score_null ns) (score_null ns') \<and>
   (\<forall>(fi, f)\<in>set ifs. \<exists>r s0 e0. results (unique_id f) = Some r \<and>
       py_get (start_logits r) 0 = Inr s0 \<and> py_get (end_logits r) 0 = Inr e0 \<and>
       \<not> float_lt (float_add s0 e0) (score_null ns')) \<and>
   (ns' = ns \<or>
    (\<exists>(fi, f)\<in>set ifs. \<exists>r s0 e0. results (unique_id f) = Some r \<and>
       py_get (start_logits r) 0 = Inr s0 \<and> py_get (end_logits r) 0 = Inr e0 \<and>
       ns' = \<lparr>score_null = float_add s0 e0, min_null_feature_index = fi,
               null_start_logit = s0, null_end_logit = e0\<rparr>))"
proof (induction ifs arbitrary: prelim ns)
  case Nil
  then show ?case by (simp add: float_lt_facts(2))
next
  case (Cons x ifs)
  obtain fi f where x: "x = (fi, f)" by (cases x)
  from Cons.prems(1) obtain r pairs ns1 where
    r: "results (unique_id f) = Some r"
    and u: "update_null fi r ns = Inr ns1"
    and run: "features_loop True n m results ifs (prelim @ pairs, ns1) = Inr (prelim', ns')"
    unfolding x by (auto split: option.splits sum.splits)
  from update_null_result [OF u] obtain s0 e0 where
    s0: "py_get (start_logits r) 0 = Inr s0" and e0: "py_get (end_logits r) 0 = Inr e0"
    and ns1: "ns1 = (if float_lt (float_add s0 e0) (score_null ns)
                  then \<lparr>score_null = float_add s0 e0, min_null_feature_index = fi,
                         null_start_logit = s0, null_end_logit = e0\<rparr>
                  else ns)"
    by blast
  have nan1: "score_null ns1 \<noteq> NaN"
    unfolding ns1 using Cons.prems(2) float_lt_facts(1) by auto
  have le1: "\<not> float_lt (score_null ns) (score_null ns1)"
    "\<not> float_lt (float_add s0 e0) (score_null ns1)"
    unfolding ns1 using float_lt_facts by auto
  from Cons.IH [OF run nan1] have
    nan: "score_null ns' \<noteq> NaN"
    and le: "\<not> float_lt (score_null ns1) (score_null ns')"
    and all: "\<forall>(fi, f)\<in>set ifs. \<exists>r s0 e0. results (unique_id f) = Some r \<and>
       py_get (start_logits r) 0 = Inr s0 \<and> py_get (end_logits r) 0 = Inr e0 \<and>
       \<not> float_lt (float_add s0 e0) (score_null ns')"
    and which: "ns' = ns1 \<or>
     (\<exists>(fi, f)\<in>set ifs. \<exists>r s0 e0. results (unique_id f) = Some r \<and>
       py_get (start_logits r) 0 = Inr s0 \<and> py_get (end_logits r) 0 = Inr e0 \<and>
       ns' = \<lparr>score_null = float_add s0 e0, min_null_feature_index = fi,
               null_start_logit = s0, null_end_logit = e0\<rparr>)"
    by blast+
  have 1: "\<not> float_lt (score_null ns) (score_null ns')"
    using le1(1) le nan1 by (rule float_not_lt_trans)
  have "\<not> float_lt (float_add s0 e0) (score_null ns')"
    using le1(2) le nan1 by (rule float_not_lt_trans)
  then have here: "\<exists>r s0 e0. results (unique_id f) = Some r \<and>
       py_get (start_logits r) 0 = Inr s0 \<and> py_get (end_logits r) 0 = Inr e0 \<and>
       \<not> float_lt (float_add s0 e0) (score_null ns')"
    using r s0 e0 by auto
  have 2: "\<forall>(fi, f)\<in>set (x # ifs). \<exists>r s0 e0. results (unique_id f) = Some r \<and>
       py_get (start_logits r) 0 = Inr s0 \<and> py_get (end_logits r) 0 = Inr e0 \<and>
       \<not> float_lt (float_add s0 e0) (score_null ns')"
    using all here unfolding x by simp
  have 3: "ns' = ns \<or>
    (\<exists>(fi, f)\<in>set (x # ifs). \<exists>r s0 e0. results (unique_id f) = Some r \<and>
       py_get (start_logits r) 0 = Inr s0 \<and> py_get (end_logits r) 0 = Inr e0 \<and>
       ns' = \<lparr>score_null = float_add s0 e0, min_null_feature_index = fi,
               null_start_logit = s0, null_end_logit = e0\<rparr>)"
  proof (cases "ns' = ns")
    case True
    then show ?thesis by simp
  next
    case False
    from which show ?thesis
    proof
      assume "ns' = ns1"
      with False ns1 have "ns' = \<lparr>score_null = float_add s0 e0, min_null_feature_index = fi,
                         null_start_logit = s0, null_end_logit = e0\<rparr>"
        by (auto split: if_splits)
      with r s0 e0 show ?thesis unfolding x by auto
    next
      assume "\<exists>(fi, f)\<in>set ifs. \<exists>r s0 e0. results (unique_id f) = Some r \<and>
       py_get (start_logits r) 0 = Inr s0 \<and> py_get (end_logits r) 0 = Inr e0 \<and>
       ns' = \<lparr>score_null = float_add s0 e0, min_null_feature_index = fi,
               null_start_logit = s0, null_end_logit = e0\<rparr>"
      then show ?thesis by auto
    qed
  qed
  from nan 1 2 3 show ?case by blast
qed

lemma prelim_predictions_null_state:
  assumes "prelim_predictions True n m results features = Inr (prelim, ns)"
  shows "score_null ns \<noteq> NaN \<and> \<not> float_lt (Fin 1000000) (score_null ns) \<and>
   (\<forall>fi<length features. \<exists>r s0 e0. results (unique_id (features ! fi)) = Some r \<and>
       py_get (start_logits r) 0 = Inr s0 \<and> py_get (end_logits r) 0 = Inr e0 \<and>
       \<not> float_lt (float_add s0 e0) (score_null ns)) \<and>
   (ns = initial_null_state \<or>
    (\<exists>fi<length features. \<exists>r s0 e0. results (unique_id (features ! fi)) = Some r \<and>
       py_get (start_logits r) 0 = Inr s0 \<and> py_get (end_logits r) 0 = Inr e0 \<and>
       ns = \<lparr>score_null = float_add s0 e0, min_null_feature_index = fi,
              null_start_logit = s0, null_end_logit = e0\<rparr>))"
proof -
  from assms obtain prelim0 where
    loop: "features_loop True n m results (enumerate 0 features) ([], initial_null_state)
             = Inr (prelim0, ns)"
    unfolding prelim_predictions_def by (auto split: sum.splits)
  have "score_null initial_null_state \<noteq> NaN"
    by (simp add: initial_null_state_def)
  note st = features_loop_null_state [OF loop this]
  have 1: "score_null ns \<noteq> NaN \<and> \<not> float_lt (Fin 1000000) (score_null ns)"
    using st by (simp add: initial_null_state_def)
  have 2: "\<forall>fi<length features. \<exists>r s0 e0. results (unique_id (features ! fi)) = Some r \<and>
       py_get (start_logits r) 0 = Inr s0 \<and> py_get (end_logits r) 0 = Inr e0 \<and>
       \<not> float_lt (float_add s0 e0) (score_null ns)"
  proof (intro allI impI)
    fix fi assume "fi < length features"
    then have "(fi, features ! fi) \<in> set (enumerate 0 features)"
      by (simp add: in_set_enumerate_eq)
    with st show "\<exists>r s0 e0. results (unique_id (features ! fi)) = Some r \<and>
       py_get (start_logits r) 0 = Inr s0 \<and> py_get (end_logits r) 0 = Inr e0 \<and>
       \<not> float_lt (float_add s0 e0) (score_null ns)"
      by blast
  qed
  have 3: "ns = initial_null_state \<or>
    (\<exists>fi<length features. \<exists>r s0 e0. results (unique_id (features ! fi)) = Some r \<and>
       py_get (start_logits r) 0 = Inr s0 \<and> py_get (end_logits r) 0 = Inr e0 \<and>
       ns = \<lparr>score_null = float_add s0 e0, min_null_feature_index = fi,
              null_start_logit = s0, null_end_logit = e0\<rparr>)"
  proof (cases "ns = initial_null_state")
    case True
    then show ?thesis by simp
  next
    case False
    with st obtain fi f r s0 e0 where
      "(fi, f) \<in> set (enumerate 0 features)" "results (unique_id f) = Some r"
      "py_get (start_logits r) 0 = Inr s0" "py_get (end_logits r) 0 = Inr e0"
      "ns = \<lparr>score_null = float_add s0 e0, min_null_feature_index = fi,
              null_start_logit = s0, null_end_logit = e0\<rparr>"
      by blast
    then show ?thesis by (auto simp: in_set_enumerate_eq)
  qed
  from 1 2 3 show ?thesis by blast
qed

text \<open>
  The loop keeps \<^verbatim>\<open>seen_predictions\<close> equal to the set of the texts in \<^verbatim>\<open>nbest\<close>, and the
  non-empty texts of \<^verbatim>\<open>nbest\<close> distinct.
\<close>

lemma nbest_loop_distinct:
  "nbest_loop bt lc n ex fs preds (seen, nbest) = Inr (seen', nbest') \<Longrightarrow>
   seen = set (map n_text nbest) \<Longrightarrow>
   distinct (filter (\<lambda>t. t \<noteq> []) (map n_text nbest)) \<Longrightarrow>
   seen' = set (map n_text nbest') \<and> distinct (filter (\<lambda>t. t \<noteq> []) (map n_text nbest'))"
proof (induction preds arbitrary: seen nbest)
  case Nil
  then show ?case by auto
next
  case (Cons pred rest)
  show ?case
  proof (cases "int (length nbest) \<ge> n")
    case True
    with Cons.prems show ?thesis by auto
  next
    case False
    with Cons.prems(1) obtain feature where
      feature: "py_get fs (int (feature_index pred)) = Inr feature"
      by (cases "py_get fs (int (feature_index pred))") auto
    show ?thesis
    proof (cases "start_index pred > 0")
      case True
      with Cons.prems(1) False feature obtain final_text where
        ft: "final_text_of bt lc ex feature pred = Inr final_text"
        by (cases "final_text_of bt lc ex feature pred") auto
      show ?thesis
      proof (cases "final_text \<in> seen")
        case dup: True
        with Cons.prems(1) False feature True ft
        have "nbest_loop bt lc n ex fs rest (seen, nbest) = Inr (seen', nbest')"
          by simp
        from Cons.IH [OF this Cons.prems(2,3)] show ?thesis .
      next
        case new: False
        let ?nbest = "nbest @ [\<lparr>n_text = final_text, n_start_logit = start_logit pred,
                                  n_end_logit = end_logit pred\<rparr>]"
        from Cons.prems(1) False feature True ft new
        have run: "nbest_loop bt lc n ex fs rest (insert final_text seen, ?nbest) = Inr (seen', nbest')"
          by simp
        have s: "insert final_text seen = set (map n_text ?nbest)"
          using Cons.prems(2) by simp
        have d: "distinct (filter (\<lambda>t. t \<noteq> []) (map n_text ?nbest))"
          using Cons.prems(2,3) new by auto
        from Cons.IH [OF run s d] show ?thesis .
      qed
    next
      case null: False
      let ?nbest = "nbest @ [\<lparr>n_text = [], n_start_logit = start_logit pred,
                                n_end_logit = end_logit pred\<rparr>]"
      from Cons.prems(1) False feature null
      have run: "nbest_loop bt lc n ex fs rest (insert [] seen, ?nbest) = Inr (seen', nbest')"
        by simp
      have s: "insert [] seen = set (map n_text ?nbest)"
        using Cons.prems(2) by simp
      have d: "distinct (filter (\<lambda>t. t \<noteq> []) (map n_text ?nbest))"
        using Cons.prems(3) by simp
      from Cons.IH [OF run s d] show ?thesis .
    qed
  qed
qed

lemma complete_nbest_cases:
  assumes "seen = set (map n_text nbest)"
  shows "(v2 \<and> [] \<notin> set (map n_text nbest) \<longrightarrow>
            complete_nbest v2 ns (seen, nbest) =
              (if nbest = [] then [placeholder, null_entry ns] else nbest @ [null_entry ns])) \<and>
         (v2 \<and> [] \<in> set (map n_text nbest) \<longrightarrow>
            complete_nbest v2 ns (seen, nbest) =
              (if length nbest = 1 then placeholder # nbest else nbest)) \<and>
         (\<not> v2 \<longrightarrow> complete_nbest v2 ns (seen, nbest) = (if nbest = [] then [placeholder] else nbest))"
  unfolding complete_nbest_def Let_def assms
  by (cases nbest) auto

lemma complete_nbest_distinct:
  assumes "seen = set (map n_text nbest)"
    and "distinct (filter (\<lambda>t. t \<noteq> []) (map n_text nbest))"
  shows "distinct (filter (\<lambda>t. t \<noteq> []) (map n_text (complete_nbest v2 ns (seen, nbest))))"
proof -
  have single: "length nbest = 1 \<Longrightarrow> [] \<in> set (map n_text nbest) \<Longrightarrow>
      filter (\<lambda>t. t \<noteq> []) (map n_text nbest) = []" for nbest :: "NbestPrediction list"
    by (cases nbest) auto
  consider "v2" "[] \<notin> set (map n_text nbest)" | "v2" "[] \<in> set (map n_text nbest)" | "\<not> v2"
    by blast
  then show ?thesis
  proof cases
    case 1
    then show ?thesis
      using complete_nbest_cases [OF assms(1), of v2 ns] assms(2)
      by (simp add: null_entry_def placeholder_def)
  next
    case 2
    then show ?thesis
      using complete_nbest_cases [OF assms(1), of v2 ns] assms(2) single [of nbest]
      by (simp add: placeholder_def)
  next
    case 3
    then show ?thesis
      using complete_nbest_cases [OF assms(1), of v2 ns] assms(2)
      by (simp add: placeholder_def)
  qed
qed

lemma decode_example_stages:
  assumes "decode_example bt lc v2 thr n m results example features = Inr out"
  shows "\<exists>prelim ns seen nbest.
     prelim_predictions v2 n m results features = Inr (prelim, ns) \<and>
     nbest_loop bt lc n example features prelim ({}, []) = Inr (seen, nbest) \<and>
     out_nbest out = complete_nbest v2 ns (seen, nbest) \<and>
     out_score_null out = score_null ns \<and>
     (v2 \<longrightarrow> (\<exists>best. best_non_null_entry (out_nbest out) = Some best \<and>
        out_score_diff out = Some (float_sub (float_sub (score_null ns) (n_start_logit best)) (n_end_logit best)) \<and>
        out_prediction out =
          (if float_gt (float_sub (float_sub (score_null ns) (n_start_logit best)) (n_end_logit best)) thr then [] else n_text best)))"
proof -
  from assms obtain prelim ns where
    p: "prelim_predictions v2 n m results features = Inr (prelim, ns)"
    by (cases "prelim_predictions v2 n m results features") (auto simp: decode_example_def)
  from assms p obtain seen nbest where
    l: "nbest_loop bt lc n example features prelim ({}, []) = Inr (seen, nbest)"
    by (cases "nbest_loop bt lc n example features prelim ({}, [])") (auto simp: decode_example_def)
  have "out_nbest out = complete_nbest v2 ns (seen, nbest) \<and> out_score_null out = score_null ns \<and>
     (v2 \<longrightarrow> (\<exists>best. best_non_null_entry (out_nbest out) = Some best \<and>
        out_score_diff out = Some (float_sub (float_sub (score_null ns) (n_start_logit best)) (n_end_logit best)) \<and>
        out_prediction out =
          (if float_gt (float_sub (float_sub (score_null ns) (n_start_logit best)) (n_end_logit best)) thr then [] else n_text best)))"
    using assms
    by (auto simp: decode_example_def p l Let_def split: if_splits list.splits option.splits)
  with p l show ?thesis by blast
qed

text \<open>
  Claim C7. For every example the standard head decodes, the texts of the final n-best
  list are pairwise distinct, the empty text apart. With null answers enabled, when no
  entry selected by the loop has the empty text, the empty entry is appended with the
  start and end logit tracked for the lowest null score: the logits at position 0 of a
  feature whose float sum of the two no feature's sum is below, or 0 and 0 when no sum
  is below 1000000. When the list then has exactly one entry, the placeholder \<open>empty\<close>
  with scores 0 is inserted in front of it.
\<close>

theorem nbest_texts_distinct:
  assumes "decode_example basic_tokenize do_lower_case v2 thr n_best_size max_answer_length results
             example features = Inr out"
  shows "distinct (filter (\<lambda>t. t \<noteq> []) (map n_text (out_nbest out))) \<and>
     (\<exists>prelim ns seen nbest.
        prelim_predictions v2 n_best_size max_answer_length results features = Inr (prelim, ns) \<and>
        nbest_loop basic_tokenize do_lower_case n_best_size example features prelim ({}, [])
          = Inr (seen, nbest) \<and>
        seen = set (map n_text nbest) \<and>
        (v2 \<and> [] \<notin> set (map n_text nbest) \<longrightarrow>
           out_nbest out = (if nbest = [] then [placeholder, null_entry ns]
                            else nbest @ [null_entry ns])) \<and>
        (v2 \<and> [] \<in> set (map n_text nbest) \<longrightarrow>
           out_nbest out = (if length nbest = 1 then placeholder # nbest else nbest)) \<and>
        (\<not> v2 \<longrightarrow> out_nbest out = (if nbest = [] then [placeholder] else nbest)) \<and>
        (v2 \<longrightarrow>
           (\<forall>fi<length features. \<exists>r s0 e0. results (unique_id (features ! fi)) = Some r \<and>
               py_get (start_logits r) 0 = Inr s0 \<and> py_get (end_logits r) 0 = Inr e0 \<and>
               \<not> float_lt (float_add s0 e0) (score_null ns)) \<and>
           (ns = initial_null_state \<or>
            (\<exists>fi<length features. \<exists>r s0 e0. results (unique_id (features ! fi)) = Some r \<and>
               py_get (start_logits r) 0 = Inr s0 \<and> py_get (end_logits r) 0 = Inr e0 \<and>
               ns = \<lparr>score_null = float_add s0 e0, min_null_feature_index = fi,
                      null_start_logit = s0, null_end_logit = e0\<rparr>))))"
proof -
  from decode_example_stages [OF assms] obtain prelim ns seen nbest where
    p: "prelim_predictions v2 n_best_size max_answer_length results features = Inr (prelim, ns)"
    and l: "nbest_loop basic_tokenize do_lower_case n_best_size example features prelim ({}, [])
          = Inr (seen, nbest)"
    and o: "out_nbest out = complete_nbest v2 ns (seen, nbest)"
    by blast
  from nbest_loop_distinct [OF l] have
    seen: "seen = set (map n_text nbest)"
    and d: "distinct (filter (\<lambda>t. t \<noteq> []) (map n_text nbest))"
    by simp_all
  have "distinct (filter (\<lambda>t. t \<noteq> []) (map n_text (out_nbest out)))"
    unfolding o by (rule complete_nbest_distinct [OF seen d])
  moreover note complete_nbest_cases [OF seen, of v2 ns, folded o]
  moreover have "v2 \<longrightarrow>
           (\<forall>fi<length features. \<exists>r s0 e0. results (unique_id (features ! fi)) = Some r \<and>
               py_get (start_logits r) 0 = Inr s0 \<and> py_get (end_logits r) 0 = Inr e0 \<and>
               \<not> float_lt (float_add s0 e0) (score_null ns)) \<and>
           (ns = initial_null_state \<or>
            (\<exists>fi<length features. \<exists>r s0 e0. results (unique_id (features ! fi)) = Some r \<and>
               py_get (start_logits r) 0 = Inr s0 \<and> py_get (end_logits r) 0 = Inr e0 \<and>
               ns = \<lparr>score_null = float_add s0 e0, min_null_feature_index = fi,
                      null_start_logit = s0, null_end_logit = e0\<rparr>))"
  proof
    assume v2
    with p have "prelim_predictions True n_best_size max_answer_length results features = Inr (prelim, ns)"
      by simp
    from prelim_predictions_null_state [OF this] show
      "(\<forall>fi<length features. \<exists>r s0 e0. results (unique_id (features ! fi)) = Some r \<and>
               py_get (start_logits r) 0 = Inr s0 \<and> py_get (end_logits r) 0 = Inr e0 \<and>
               \<not> float_lt (float_add s0 e0) (score_null ns)) \<and>
           (ns = initial_null_state \<or>
            (\<exists>fi<length features. \<exists>r s0 e0. results (unique_id (features ! fi)) = Some r \<and>
               py_get (start_logits r) 0 = Inr s0 \<and> py_get (end_logits r) 0 = Inr e0 \<and>
               ns = \<lparr>score_null = float_add s0 e0, min_null_feature_index = fi,
                      null_start_logit = s0, null_end_logit = e0\<rparr>))"
      by blast
  qed
  ultimately show ?thesis using p l seen by blast
qed

text \<open>
  The sample feature, decoded with room for three entries and for none, and two features
  whose null scores \<^verbatim>\<open>0.30000000000000004 + 0.0\<close> and \<^verbatim>\<open>0.1 + 0.2\<close> are the same float:
  the first keeps the null state.
\<close>

theorem nbest_texts_distinct_witness:
  "decode_example sample_basic_tokenize True True (Fin 0) 3 30 (unique_id_to_result [sample_result])
     sample_example [sample_feature] =
     Inr \<lparr>out_nbest =
            [\<lparr>n_text = ''John Smith'', n_start_logit = Fin 5, n_end_logit = Fin 4\<rparr>,
             \<lparr>n_text = ''John'', n_start_logit = Fin 5, n_end_logit = Fin 1\<rparr>,
             \<lparr>n_text = ''Smith'', n_start_logit = Fin 2, n_end_logit = Fin 4\<rparr>,
             \<lparr>n_text = [], n_start_logit = Fin 1, n_end_logit = Fin 1\<rparr>],
          out_prediction = ''John Smith'', out_score_diff = Some (Fin (- 7)),
          out_score_null = Fin 2\<rparr> \<and>
   distinct (filter (\<lambda>t. t \<noteq> []) [''John Smith'', ''John'', ''Smith'', []]) \<and>
   decode_example sample_basic_tokenize True True (Fin 0) 0 30 (unique_id_to_result [sample_result])
     sample_example [sample_feature] =
     Inr \<lparr>out_nbest =
            [\<lparr>n_text = ''empty'', n_start_logit = Fin 0, n_end_logit = Fin 0\<rparr>,
             \<lparr>n_text = [], n_start_logit = Fin 1, n_end_logit = Fin 1\<rparr>],
          out_prediction = [], out_score_diff = Some (Fin 2), out_score_null = Fin 2\<rparr> \<and>
   decode_example sample_basic_tokenize True True (Fin 0) 0 30
     (unique_id_to_result [sample_result_tie_first, sample_result_tie_second])
     sample_example [sample_feature, sample_feature_second] =
     Inr \<lparr>out_nbest =
            [\<lparr>n_text = ''empty'', n_start_logit = Fin 0, n_end_logit = Fin 0\<rparr>,
             \<lparr>n_text = [], n_start_logit = Fin (1351079888211149 / 4503599627370496),
                n_end_logit = Fin 0\<rparr>],
          out_prediction = [],
          out_score_diff = Some (Fin (1351079888211149 / 4503599627370496)),
          out_score_null = Fin (1351079888211149 / 4503599627370496)\<rparr>"
proof -
  let ?out = "\<lparr>out_nbest =
            [\<lparr>n_text = ''John Smith'', n_start_logit = Fin 5, n_end_logit = Fin 4\<rparr>,
             \<lparr>n_text = ''John'', n_start_logit = Fin 5, n_end_logit = Fin 1\<rparr>,
             \<lparr>n_text = ''Smith'', n_start_logit = Fin 2, n_end_logit = Fin 4\<rparr>,
             \<lparr>n_text = [], n_start_logit = Fin 1, n_end_logit = Fin 1\<rparr>],
          out_prediction = ''John Smith'', out_score_diff = Some (Fin (- 7)),
          out_score_null = Fin 2\<rparr>"
  have run: "decode_example sample_basic_tokenize True True (Fin 0) 3 30
      (unique_id_to_result [sample_result]) sample_example [sample_feature] = Inr ?out"
    by code_simp
  have run0: "decode_example sample_basic_tokenize True True (Fin 0) 0 30
      (unique_id_to_result [sample_result]) sample_example [sample_feature] =
     Inr \<lparr>out_nbest =
            [\<lparr>n_text = ''empty'', n_start_logit = Fin 0, n_end_logit = Fin 0\<rparr>,
             \<lparr>n_text = [], n_start_logit = Fin 1, n_end_logit = Fin 1\<rparr>],
          out_prediction = [], out_score_diff = Some (Fin 2), out_score_null = Fin 2\<rparr>"
    by code_simp
  have tie: "decode_example sample_basic_tokenize True True (Fin 0) 0 30
     (unique_id_to_result [sample_result_tie_first, sample_result_tie_second])
     sample_example [sample_feature, sample_feature_second] =
     Inr \<lparr>out_nbest =
            [\<lparr>n_text = ''empty'', n_start_logit = Fin 0, n_end_logit = Fin 0\<rparr>,
             \<lparr>n_text = [], n_start_logit = Fin (1351079888211149 / 4503599627370496),
                n_end_logit = Fin 0\<rparr>],
          out_prediction = [],
          out_score_diff = Some (Fin (1351079888211149 / 4503599627370496)),
          out_score_null = Fin (1351079888211149 / 4503599627370496)\<rparr>"
    by code_simp
  from nbest_texts_distinct [OF run]
  have "distinct (filter (\<lambda>t. t \<noteq> []) (map n_text (out_nbest ?out)))"
    by blast
  then have "distinct (filter (\<lambda>t. t \<noteq> []) [''John Smith'', ''John'', ''Smith'', []])"
    by simp
  with run run0 tie show ?thesis by blast
qed

subsection \<open>Null-answer threshold\<close>

lemma best_non_null_entry_text:
  "best_non_null_entry nbest = Some best \<Longrightarrow> n_text best \<noteq> [] \<and> best \<in> set nbest"
  unfolding best_non_null_entry_def by (auto simp: find_Some_iff)

text \<open>An example later in the list leaves the entries of other question ids alone.\<close>

lemma examples_loop_other:
  "examples_loop bt lc v2 thr n m results all_features ixs (ps, ns, ds) = Inr (ps', ns', ds') \<Longrightarrow>
   qid \<notin> set (map (\<lambda>(ix, ex). qas_id ex) ixs) \<Longrightarrow>
   ps' qid = ps qid \<and> ns' qid = ns qid \<and> ds' qid = ds qid"
proof (induction ixs arbitrary: ps ns ds)
  case Nil
  then show ?case by simp
next
  case (Cons x ixs)
  obtain ix ex where x: "x = (ix, ex)" by (cases x)
  from Cons.prems(1) obtain out where
    out: "decode_example bt lc v2 thr n m results ex (features_of_example all_features ix) = Inr out"
    unfolding x
    by (cases "decode_example bt lc v2 thr n m results ex (features_of_example all_features ix)") auto
  from Cons.prems(1) have
    run: "examples_loop bt lc v2 thr n m results all_features ixs
       (ps(qas_id ex \<mapsto> out_prediction out), ns(qas_id ex \<mapsto> out_nbest out),
        (case out_score_diff out of None \<Rightarrow> ds | Some score_diff \<Rightarrow> ds(qas_id ex \<mapsto> score_diff)))
       = Inr (ps', ns', ds')"
    unfolding x by (simp add: out)
  from Cons.prems(2) have q: "qid \<noteq> qas_id ex" "qid \<notin> set (map (\<lambda>(ix, ex). qas_id ex) ixs)"
    unfolding x by auto
  from Cons.IH [OF run q(2)] q(1) show ?case
    by (auto split: option.splits)
qed

lemma examples_loop_records:
  "examples_loop bt lc v2 thr n m results all_features ixs (ps, ns, ds) = Inr (ps', ns', ds') \<Longrightarrow>
   distinct (map (\<lambda>(ix, ex). qas_id ex) ixs) \<Longrightarrow> (ix, ex) \<in> set ixs \<Longrightarrow>
   \<exists>out. decode_example bt lc v2 thr n m results ex (features_of_example all_features ix) = Inr out \<and>
         ps' (qas_id ex) = Some (out_prediction out) \<and>
         ns' (qas_id ex) = Some (out_nbest out) \<and>
         (\<forall>d. out_score_diff out = Some d \<longrightarrow> ds' (qas_id ex) = Some d)"
proof (induction ixs arbitrary: ps ns ds)
  case Nil
  then show ?case by simp
next
  case (Cons x ixs)
  obtain ix0 ex0 where x: "x = (ix0, ex0)" by (cases x)
  from Cons.prems(1) obtain out where
    out: "decode_example bt lc v2 thr n m results ex0 (features_of_example all_features ix0) = Inr out"
    unfolding x
    by (cases "decode_example bt lc v2 thr n m results ex0 (features_of_example all_features ix0)") auto
  from Cons.prems(1) have
    run: "examples_loop bt lc v2 thr n m results all_features ixs
       (ps(qas_id ex0 \<mapsto> out_prediction out), ns(qas_id ex0 \<mapsto> out_nbest out),
        (case out_score_diff out of None \<Rightarrow> ds | Some score_diff \<Rightarrow> ds(qas_id ex0 \<mapsto> score_diff)))
       = Inr (ps', ns', ds')"
    unfolding x by (simp add: out)
  from Cons.prems(2) have d: "qas_id ex0 \<notin> set (map (\<lambda>(ix, ex). qas_id ex) ixs)"
    "distinct (map (\<lambda>(ix, ex). qas_id ex) ixs)"
    unfolding x by auto
  from Cons.prems(3) consider "(ix, ex) = (ix0, ex0)" | "(ix, ex) \<in> set ixs"
    unfolding x by auto
  then show ?case
  proof cases
    case 1
    from examples_loop_other [OF run d(1)] out 1 show ?thesis
      by (auto split: option.splits)
  next
    case 2
    from Cons.IH [OF run d(2) 2] show ?thesis .
  qed
qed

text \<open>
  Claim C5. With null answers enabled, for every example (the question ids distinct) the
  standard head's prediction is the empty string if and only if \<^verbatim>\<open>score_null\<close> minus the
  start logit and then minus the end logit of the best non-null entry, in float
  arithmetic, exceeds \<^verbatim>\<open>null_score_diff_threshold\<close>; otherwise it is the text of that
  entry; and the difference is what \<^verbatim>\<open>scores_diff_json\<close> holds for the question id.
  \<^verbatim>\<open>score_null\<close> is not above 1000000 and no feature of the example has a float sum of its
  two logits at position 0 below it; it is such a sum, or 1000000. The best non-null entry
  is the first n-best entry with a non-empty text.
\<close>

theorem null_threshold_decides_prediction:
  assumes "write_predictions basic_tokenize all_examples all_features all_results n_best_size
             max_answer_length do_lower_case True null_score_diff_threshold
           = Inr (all_predictions, all_nbest_json, scores_diff_json)"
    and "distinct (map qas_id all_examples)"
    and "i < length all_examples"
  shows "\<exists>out best score_diff.
     decode_example basic_tokenize do_lower_case True null_score_diff_threshold n_best_size
       max_answer_length (unique_id_to_result all_results) (all_examples ! i)
       (features_of_example all_features i) = Inr out \<and>
     best_non_null_entry (out_nbest out) = Some best \<and> n_text best \<noteq> [] \<and>
     score_diff = float_sub (float_sub (out_score_null out) (n_start_logit best)) (n_end_logit best) \<and>
     all_predictions (qas_id (all_examples ! i)) = Some (out_prediction out) \<and>
     (out_prediction out = [] \<longleftrightarrow> float_gt score_diff null_score_diff_threshold) \<and>
     (\<not> float_gt score_diff null_score_diff_threshold \<longrightarrow> out_prediction out = n_text best) \<and>
     scores_diff_json (qas_id (all_examples ! i)) = Some score_diff \<and>
     out_score_null out \<noteq> NaN \<and> \<not> float_lt (Fin 1000000) (out_score_null out) \<and>
     (\<forall>fi<length (features_of_example all_features i).
        \<exists>r s0 e0. unique_id_to_result all_results (unique_id (features_of_example all_features i ! fi)) = Some r \<and>
          py_get (start_logits r) 0 = Inr s0 \<and> py_get (end_logits r) 0 = Inr e0 \<and>
          \<not> float_lt (float_add s0 e0) (out_score_null out)) \<and>
     (out_score_null out = Fin 1000000 \<or>
      (\<exists>fi<length (features_of_example all_features i).
        \<exists>r s0 e0. unique_id_to_result all_results (unique_id (features_of_example all_features i ! fi)) = Some r \<and>
          py_get (start_logits r) 0 = Inr s0 \<and> py_get (end_logits r) 0 = Inr e0 \<and>
          out_score_null out = float_add s0 e0))"
proof -
  let ?results = "unique_id_to_result all_results"
  let ?fs = "features_of_example all_features i"
  have d: "distinct (map (\<lambda>(ix, ex). qas_id ex) (enumerate 0 all_examples))"
  proof -
    have "map (\<lambda>(ix, ex). qas_id ex) (enumerate 0 all_examples) = map qas_id all_examples"
      by (rule nth_equalityI) (simp_all add: nth_enumerate_eq)
    then show ?thesis using assms(2) by simp
  qed
  have mem: "(i, all_examples ! i) \<in> set (enumerate 0 all_examples)"
    using assms(3) by (simp add: in_set_enumerate_eq)
  from examples_loop_records [OF assms(1) [unfolded write_predictions_def] d mem] obtain out where
    out: "decode_example basic_tokenize do_lower_case True null_score_diff_threshold n_best_size
       max_answer_length ?results (all_examples ! i) ?fs = Inr out"
    and pred: "all_predictions (qas_id (all_examples ! i)) = Some (out_prediction out)"
    and diff: "\<forall>d. out_score_diff out = Some d \<longrightarrow> scores_diff_json (qas_id (all_examples ! i)) = Some d"
    by blast
  from decode_example_stages [OF out] obtain prelim ns best where
    p: "prelim_predictions True n_best_size max_answer_length ?results ?fs = Inr (prelim, ns)"
    and sn: "out_score_null out = score_null ns"
    and best: "best_non_null_entry (out_nbest out) = Some best"
    and sd: "out_score_diff out =
          Some (float_sub (float_sub (score_null ns) (n_start_logit best)) (n_end_logit best))"
    and op: "out_prediction out =
          (if float_gt (float_sub (float_sub (score_null ns) (n_start_logit best)) (n_end_logit best))
                null_score_diff_threshold
           then [] else n_text best)"
    by blast
  have nonempty: "n_text best \<noteq> []"
    using best_non_null_entry_text [OF best] by simp
  note null = prelim_predictions_null_state [OF p]
  let ?sd = "float_sub (float_sub (out_score_null out) (n_start_logit best)) (n_end_logit best)"
  have a: "out_prediction out = [] \<longleftrightarrow> float_gt ?sd null_score_diff_threshold"
    using op nonempty sn by simp
  have b: "\<not> float_gt ?sd null_score_diff_threshold \<longrightarrow> out_prediction out = n_text best"
    using op sn by simp
  have c: "scores_diff_json (qas_id (all_examples ! i)) = Some ?sd"
    using diff sd sn by simp
  have e: "out_score_null out \<noteq> NaN \<and> \<not> float_lt (Fin 1000000) (out_score_null out)"
    using null sn by simp
  have f: "\<forall>fi<length ?fs.
        \<exists>r s0 e0. ?results (unique_id (?fs ! fi)) = Some r \<and>
          py_get (start_logits r) 0 = Inr s0 \<and> py_get (end_logits r) 0 = Inr e0 \<and>
          \<not> float_lt (float_add s0 e0) (out_score_null out)"
    using null sn by simp
  have g: "out_score_null out = Fin 1000000 \<or>
      (\<exists>fi<length ?fs.
        \<exists>r s0 e0. ?results (unique_id (?fs ! fi)) = Some r \<and>
          py_get (start_logits r) 0 = Inr s0 \<and> py_get (end_logits r) 0 = Inr e0 \<and>
          out_score_null out = float_add s0 e0)"
  proof -
    from null consider "ns = initial_null_state"
      | fi r s0 e0 where "fi < length ?fs" "?results (unique_id (?fs ! fi)) = Some r"
          "py_get (start_logits r) 0 = Inr s0" "py_get (end_logits r) 0 = Inr e0"
          "ns = \<lparr>score_null = float_add s0 e0, min_null_feature_index = fi,
              null_start_logit = s0, null_end_logit = e0\<rparr>"
      by blast
    then show ?thesis
    proof cases
      case 1
      then show ?thesis using sn by (simp add: initial_null_state_def)
    next
      case 2
      then have "out_score_null out = float_add s0 e0" using sn by simp
      with 2 show ?thesis by blast
    qed
  qed
  from out best nonempty pred a b c e f g show ?thesis by blast
qed

text \<open>
  The sample feature with a low and with a high null score, and with the logits where
  rounding decides: \<^verbatim>\<open>(0.1 + 0.2) - 0.3 - 0.0\<close> is \<open>2 ^ (- 54)\<close> in floats, above the
  threshold \<open>2 ^ (- 55)\<close>, so the prediction is empty.
\<close>

theorem null_threshold_decides_prediction_witness:
  "\<exists>all_predictions all_nbest_json scores_diff_json p' n' s'.
     write_predictions sample_basic_tokenize [sample_example] [sample_feature] [sample_result]
       3 30 True True (Fin 0) = Inr (all_predictions, all_nbest_json, scores_diff_json) \<and>
     all_predictions ''q1'' = Some ''John Smith'' \<and> scores_diff_json ''q1'' = Some (Fin (- 7)) \<and>
     write_predictions sample_basic_tokenize [sample_example] [sample_feature] [sample_result_rounding]
       3 30 True True (Fin (1 / 2 ^ 55)) = Inr (p', n', s') \<and>
     p' ''q1'' = Some [] \<and> s' ''q1'' = Some (Fin (1 / 2 ^ 54)) \<and>
     (\<exists>out best.
        decode_example sample_basic_tokenize True True (Fin (1 / 2 ^ 55)) 3 30
          (unique_id_to_result [sample_result_rounding]) sample_example [sample_feature] = Inr out \<and>
        best_non_null_entry (out_nbest out) = Some best \<and>
        p' ''q1'' = Some (out_prediction out) \<and>
        (out_prediction out = [] \<longleftrightarrow>
           float_gt (float_sub (float_sub (out_score_null out) (n_start_logit best)) (n_end_logit best))
             (Fin (1 / 2 ^ 55))) \<and>
        s' ''q1'' =
          Some (float_sub (float_sub (out_score_null out) (n_start_logit best)) (n_end_logit best)))"
proof -
  have "case write_predictions sample_basic_tokenize [sample_example] [sample_feature]
               [sample_result] 3 30 True True (Fin 0) of
          Inr (p, n, s) \<Rightarrow> p ''q1'' = Some ''John Smith'' \<and> s ''q1'' = Some (Fin (- 7))
        | Inl e \<Rightarrow> False"
    by code_simp
  then obtain p n s where
    run: "write_predictions sample_basic_tokenize [sample_example] [sample_feature]
            [sample_result] 3 30 True True (Fin 0) = Inr (p, n, s)"
    and vals: "p ''q1'' = Some ''John Smith''" "s ''q1'' = Some (Fin (- 7))"
    by (auto split: sum.splits)
  have "case write_predictions sample_basic_tokenize [sample_example] [sample_feature]
               [sample_result_rounding] 3 30 True True (Fin (1 / 2 ^ 55)) of
          Inr (p, n, s) \<Rightarrow> p ''q1'' = Some [] \<and> s ''q1'' = Some (Fin (1 / 2 ^ 54))
        | Inl e \<Rightarrow> False"
    by code_simp
  then obtain p' n' s' where
    run': "write_predictions sample_basic_tokenize [sample_example] [sample_feature]
            [sample_result_rounding] 3 30 True True (Fin (1 / 2 ^ 55)) = Inr (p', n', s')"
    and vals': "p' ''q1'' = Some []" "s' ''q1'' = Some (Fin (1 / 2 ^ 54))"
    by (auto split: sum.splits)
  have q: "qas_id sample_example = ''q1''"
    by (simp add: sample_example_def)
  have d: "distinct (map qas_id [sample_example])" and i: "0 < length [sample_example]"
    by simp_all
  from null_threshold_decides_prediction [OF run' d i]
  have "\<exists>out best.
        decode_example sample_basic_tokenize True True (Fin (1 / 2 ^ 55)) 3 30
          (unique_id_to_result [sample_result_rounding]) sample_example [sample_feature] = Inr out \<and>
        best_non_null_entry (out_nbest out) = Some best \<and>
        p' ''q1'' = Some (out_prediction out) \<and>
        (out_prediction out = [] \<longleftrightarrow>
           float_gt (float_sub (float_sub (out_score_null out) (n_start_logit best)) (n_end_logit best))
             (Fin (1 / 2 ^ 55))) \<and>
        s' ''q1'' =
          Some (float_sub (float_sub (out_score_null out) (n_start_logit best)) (n_end_logit best))"
    by (simp add: q features_of_example_def sample_feature_def) blast
  with run vals run' vals' show ?thesis by blast
qed

section \<open>Properties of the scorer\<close>

lemma sum_list_filter_pos:
  "sum_list (map snd (filter (\<lambda>(t, n). 0 < n) ps)) = sum_list (map snd (ps :: ('a \<times> nat) list))"
  by (induction ps) auto

lemma count_list_mset: "count_list xs t = count (mset xs) t"
  by (induction xs) auto

text \<open>The number of common tokens is the size of the intersection of the two token bags.\<close>

lemma num_same_inter:
  "sum_list (map snd (counter_and xs ys)) = size (mset xs \<inter># mset ys)"
proof -
  let ?M = "mset xs \<inter># mset ys"
  have "sum_list (map snd (counter_and xs ys))
        = sum_list (map (\<lambda>t. min (count_list xs t) (count_list ys t)) (remdups xs))"
    by (simp add: counter_and_def sum_list_filter_pos comp_def)
  also have "\<dots> = (\<Sum>t\<in>set xs. count ?M t)"
    by (simp add: sum_list_distinct_conv_sum_set count_list_mset)
  also have "\<dots> = (\<Sum>t\<in>set_mset ?M. count ?M t)"
    by (rule sum.mono_neutral_right) (auto simp: not_in_iff)
  also have "\<dots> = size ?M"
    by (simp add: size_multiset_overloaded_eq)
  finally show ?thesis .
qed

lemma num_same_commute:
  "sum_list (map snd (counter_and xs ys)) = sum_list (map snd (counter_and ys xs))"
  by (simp add: num_same_inter subset_mset.inf.commute)

text \<open>
  Claim C9. \<^verbatim>\<open>normalize_answer("The Japan.")\<close> is \<^verbatim>\<open>"japan"\<close>: the text is lowercased,
  the full stop is stripped, the article is removed as a whole word and the whitespace
  is collapsed (the second equation shows articles inside longer words staying).
  \<^verbatim>\<open>compute_f1("the japan", "Japan")\<close> is 1. In \<^verbatim>\<open>compute_f1\<close>, when either
  normalized token bag is empty, the score is 1 if both are empty and 0 otherwise.
\<close>

theorem normalize_answer_compute_f1_scenarios:
  "normalize_answer ''The Japan.'' = ''japan'' \<and>
   normalize_answer ''An  apple, a theory; the_a an-a the'' = ''apple theory thea ana'' \<and>
   compute_f1 ''the japan'' ''Japan'' = 1 \<and>
   (\<forall>a_gold a_pred. get_tokens a_gold = [] \<or> get_tokens a_pred = [] \<longrightarrow>
      compute_f1 a_gold a_pred = (if get_tokens a_gold = [] \<and> get_tokens a_pred = [] then 1 else 0))"
proof (intro conjI allI impI)
  show "normalize_answer ''The Japan.'' = ''japan''"
    by code_simp
  show "normalize_answer ''An  apple, a theory; the_a an-a the'' = ''apple theory thea ana''"
    by code_simp
  show "compute_f1 ''the japan'' ''Japan'' = 1"
    by code_simp
next
  fix a_gold a_pred
  assume "get_tokens a_gold = [] \<or> get_tokens a_pred = []"
  then show "compute_f1 a_gold a_pred =
      (if get_tokens a_gold = [] \<and> get_tokens a_pred = [] then 1 else 0)"
    unfolding compute_f1_def Let_def by auto
qed

theorem normalize_answer_compute_f1_scenarios_witness:
  "get_tokens ''the'' = [] \<and> get_tokens ''Japan'' = [''japan''] \<and>
   compute_f1 ''the'' ''Japan'' = 0 \<and> compute_f1 ''the'' ''a'' = 1"
proof -
  have g: "get_tokens ''the'' = []" and p: "get_tokens ''Japan'' = [''japan'']"
    and a: "get_tokens ''a'' = []"
    by code_simp+
  have "compute_f1 ''the'' ''Japan'' = 0" and "compute_f1 ''the'' ''a'' = 1"
    using normalize_answer_compute_f1_scenarios g p a by simp_all
  with g p show ?thesis by simp
qed

text \<open>
  Claim C10. \<^verbatim>\<open>compute_f1\<close> is symmetric in its two arguments: the common-token count,
  the empty-bag rule and the harmonic mean of precision and recall do not change when
  the gold and the predicted answer are swapped.
\<close>

theorem compute_f1_symmetric: "compute_f1 a_gold a_pred = compute_f1 a_pred a_gold"
  unfolding compute_f1_def Let_def
  by (auto simp: num_same_commute [of "get_tokens a_gold" "get_tokens a_pred"]
      add.commute mult.commute mult.left_commute)

end
